theory Spec2Isabelle
  imports Main "HOL-Library.Word" "HOL-Library.Signed_Division"
begin

unbundle bit_operations_syntax

section \<open>Go integers\<close>

text \<open>
  The arithmetic of \<^verbatim>\<open>util/types/mytime.go\<close> is done on Go's \<^verbatim>\<open>int\<close>, a two's
  complement integer of 64 bits on the platforms the program is built for. A value of
  that type is an \<^typ>\<open>int\<close> between \<open>- 2 ^ 63\<close> and \<open>2 ^ 63 - 1\<close>; every \<open>+\<close>, \<open>-\<close>
  and \<open>*\<close> of the source is followed by \<open>int64\<close>, which wraps the exact result the way
  the machine does. Go's \<^verbatim>\<open>/\<close> and \<^verbatim>\<open>%\<close> truncate toward zero: they are \<open>sdiv\<close> and
  \<open>smod\<close> (the divisors of this file are the constants 4, 7, 10, 100, 400 and 1000, so
  that no quotient overflows). The fields of the struct are unsigned machine words.
\<close>

definition int64 :: "int \<Rightarrow> int" where
  "int64 x = signed_take_bit 63 x"

definition is_int64 :: "int \<Rightarrow> bool" where
  "is_int64 x \<longleftrightarrow> - (2 ^ 63) \<le> x \<and> x < 2 ^ 63"

section \<open>The struct \<^verbatim>\<open>mysqlTime\<close> and its accessors\<close>

record mysqlTime =
  year :: "16 word"
  month :: "8 word"
  day :: "8 word"
  hour :: "8 word"
  minute :: "8 word"
  second :: "8 word"
  microsecond :: "32 word"

definition Year :: "mysqlTime \<Rightarrow> int" where
  "Year t = uint (year t)"

definition Month :: "mysqlTime \<Rightarrow> int" where
  "Month t = uint (month t)"

definition Day :: "mysqlTime \<Rightarrow> int" where
  "Day t = uint (day t)"

definition Hour :: "mysqlTime \<Rightarrow> int" where
  "Hour t = uint (hour t)"

definition Minute :: "mysqlTime \<Rightarrow> int" where
  "Minute t = uint (minute t)"

definition Second :: "mysqlTime \<Rightarrow> int" where
  "Second t = uint (second t)"

definition Microsecond :: "mysqlTime \<Rightarrow> int" where
  "Microsecond t = uint (microsecond t)"

text \<open>
  \<^verbatim>\<open>newMysqlTime\<close> converts each \<^verbatim>\<open>int\<close> argument to the type of its field
  (\<^verbatim>\<open>uint16(year)\<close>, \<^verbatim>\<open>uint8(month)\<close>, ...): the conversion keeps the low bits.
\<close>

definition newMysqlTime :: "int \<Rightarrow> int \<Rightarrow> int \<Rightarrow> int \<Rightarrow> int \<Rightarrow> int \<Rightarrow> int \<Rightarrow> mysqlTime" where
  "newMysqlTime y mo d h mi s us =
     \<lparr> year = word_of_int y,
       month = word_of_int mo,
       day = word_of_int d,
       hour = word_of_int h,
       minute = word_of_int mi,
       second = word_of_int s,
       microsecond = word_of_int us \<rparr>"

section \<open>Day numbers, days in a year, weekdays\<close>

text \<open>
  \<^verbatim>\<open>calcDaynr\<close>. The constant expression \<^verbatim>\<open>23/10\<close> of the source is an integer division
  of constants. Go's \<^verbatim>\<open>*\<close> and \<^verbatim>\<open>/\<close> have the same precedence and associate to the
  left, so that \<^verbatim>\<open>(y/100 + 1) * 3 / 4\<close> multiplies first.
\<close>

definition calcDaynr :: "int \<Rightarrow> int \<Rightarrow> int \<Rightarrow> int" where
  "calcDaynr year month day =
     (let y = year in
      if y = 0 \<and> month = 0 then 0
      else
        let delsum = int64 (int64 (int64 (365 * y) + int64 (31 * int64 (month - 1))) + day);
            (y, delsum) =
               (if month \<le> 2 then (int64 (y - 1), delsum)
                else (y, int64 (delsum - int64 (int64 (month * 4) + 23 sdiv 10))));
            temp = int64 (int64 (y sdiv 100 + 1) * 3) sdiv 4
        in int64 (int64 (delsum + y sdiv 4) - temp))"
  for year month day :: int

definition calcDaysInYear :: "int \<Rightarrow> int" where
  "calcDaysInYear year =
     (if (year AND 3) = 0 \<and> (year smod 100 \<noteq> 0 \<or> (year smod 400 = 0 \<and> year \<noteq> 0))
      then 366 else 365)"
  for year :: int

definition calcWeekday :: "int \<Rightarrow> bool \<Rightarrow> int" where
  "calcWeekday daynr sundayFirstDayOfWeek =
     (let daynr = int64 (daynr + 5);
          daynr = (if sundayFirstDayOfWeek then int64 (daynr + 1) else daynr)
      in daynr smod 7)"

section \<open>Week numbers\<close>

text \<open>\<^verbatim>\<open>weekBehaviour\<close> is a \<^verbatim>\<open>uint\<close>; its three flags are \<^verbatim>\<open>1 << iota\<close>.\<close>

type_synonym weekBehaviour = "64 word"

definition weekBehaviourMondayFirst :: weekBehaviour where
  "weekBehaviourMondayFirst = push_bit 0 1"

definition weekBehaviourWeekYear :: weekBehaviour where
  "weekBehaviourWeekYear = push_bit 1 1"

definition weekBehaviourWeekFirstWeekday :: weekBehaviour where
  "weekBehaviourWeekFirstWeekday = push_bit 2 1"

definition test :: "weekBehaviour \<Rightarrow> weekBehaviour \<Rightarrow> bool" where
  "test v flag \<longleftrightarrow> (v AND flag) \<noteq> 0"

text \<open>
  \<^verbatim>\<open>calcWeek\<close> writes the year that owns the week through its pointer argument
  \<^verbatim>\<open>year\<close>; here the function returns the pair of the week and of that year.
  \<open>calcWeek_rest\<close> is the part of the body after the first conditional (the computation
  of \<^verbatim>\<open>days\<close> and the test for the first week of the next year), on the values the
  local variables have there.
\<close>

definition calcWeek_rest :: "int \<Rightarrow> int \<Rightarrow> int \<Rightarrow> bool \<Rightarrow> bool \<Rightarrow> int \<Rightarrow> int \<times> int" where
  "calcWeek_rest daynr first_daynr weekday week_year first_weekday year =
     (let days =
            (if (first_weekday \<and> weekday \<noteq> 0) \<or> (\<not> first_weekday \<and> weekday \<ge> 4)
             then int64 (daynr - int64 (int64 (first_daynr + 7) - weekday))
             else int64 (daynr - int64 (first_daynr - weekday)))
      in if week_year \<and> days \<ge> 52 * 7 then
           let weekday = int64 (weekday + calcDaysInYear year) smod 7
           in if (\<not> first_weekday \<and> weekday < 4) \<or> (first_weekday \<and> weekday = 0)
              then (1, int64 (year + 1))
              else (int64 (days sdiv 7 + 1), year)
         else (int64 (days sdiv 7 + 1), year))"
  for year :: int

definition calcWeek :: "mysqlTime \<Rightarrow> weekBehaviour \<Rightarrow> int \<times> int" where
  "calcWeek t wb =
     (let daynr = calcDaynr (uint (year t)) (uint (month t)) (uint (day t));
          first_daynr = calcDaynr (uint (year t)) 1 1;
          monday_first = test wb weekBehaviourMondayFirst;
          week_year = test wb weekBehaviourWeekYear;
          first_weekday = test wb weekBehaviourWeekFirstWeekday;
          weekday = calcWeekday first_daynr (\<not> monday_first);
          year = uint (year t)
      in if month t = 1 \<and> uint (day t) \<le> int64 (7 - weekday) then
           if \<not> week_year \<and>
              ((first_weekday \<and> weekday \<noteq> 0) \<or> (\<not> first_weekday \<and> weekday \<ge> 4))
           then (0, year)
           else
             let week_year = True;
                 year = int64 (year - 1);
                 days = calcDaysInYear year;
                 first_daynr = int64 (first_daynr - days);
                 weekday = int64 (int64 (weekday + 53 * 7) - days) smod 7
             in calcWeek_rest daynr first_daynr weekday week_year first_weekday year
         else calcWeek_rest daynr first_daynr weekday week_year first_weekday year)"

section \<open>The day number as the specification words it\<close>

text \<open>
  \<open>dayNumber\<close> follows the words of the specification (section 4.4), on exact
  integers: the sentinel 0 for year 0 and month 0; otherwise \<open>delsum\<close> starts as
  \<open>365 * year + 31 * (month - 1) + day\<close>, \<open>y\<close> is the year before when the month is at
  most 2, \<open>delsum\<close> is reduced by \<open>month * 4 + 2\<close> when the month is above 2, and the
  result is \<open>delsum + y / 4 - ((y / 100 + 1) * 3) / 4\<close> with truncating divisions. It is
  compared with \<open>calcDaynr\<close> below.
\<close>

definition dayNumber :: "int \<Rightarrow> int \<Rightarrow> int \<Rightarrow> int" where
  "dayNumber year month day =
     (if year = 0 \<and> month = 0 then 0
      else
        let delsum = 365 * year + 31 * (month - 1) + day;
            y = (if month \<le> 2 then year - 1 else year);
            delsum = (if month > 2 then delsum - (month * 4 + 2) else delsum)
        in delsum + y sdiv 4 - ((y sdiv 100 + 1) * 3) sdiv 4)"
  for year month day :: int

section \<open>The time package\<close>

text \<open>
  Modelled from the spec: Go's standard package \<^verbatim>\<open>time\<close> (\<^verbatim>\<open>time.Date\<close>, \<^verbatim>\<open>time.Local\<close> and the
  methods \<^verbatim>\<open>Date\<close>, \<^verbatim>\<open>Clock\<close>, \<^verbatim>\<open>Nanosecond\<close>, \<^verbatim>\<open>Weekday\<close>, \<^verbatim>\<open>YearDay\<close> and \<^verbatim>\<open>ISOWeek\<close> of
  \<^verbatim>\<open>time.Time\<close>), which \<^verbatim>\<open>GoTime\<close> and the derived accessors call and which is not part
  of the repository. The specification (section 4.5 and the glossary) describes it as the
  facility that builds a normalized, offset-aware absolute timestamp from calendar fields
  interpreted in a local offset, under proleptic Gregorian rules, rolling a field outside
  its natural range over into the adjacent date. A location is the offset of its zone in
  seconds east of UTC (zones whose offset changes during the year are outside this
  model); an absolute timestamp is the number of seconds since 1970-01-01 00:00:00 UTC,
  the nanoseconds within that second, and its location.
\<close>

type_synonym Location = int

record Time =
  unixSec :: int
  nsec :: int
  loc :: Location

text \<open>
  Modelled from the spec: the normalization done by \<^verbatim>\<open>time.Date\<close>. \<open>norm\<close> carries the part
  of \<open>lo\<close> outside \<open>0 \<le> lo < base\<close> into \<open>hi\<close>; \<open>isLeap\<close>, \<open>daysBefore\<close> (the days of a
  common year before a month) and \<open>daysSinceEpoch\<close> (the days from 1970-01-01 to January
  1st of a year) are the proleptic Gregorian calendar.
\<close>

definition norm :: "int \<Rightarrow> int \<Rightarrow> int \<Rightarrow> int \<times> int" where
  "norm hi lo base = (hi + lo div base, lo mod base)"

definition isLeap :: "int \<Rightarrow> bool" where
  "isLeap y \<longleftrightarrow> y mod 4 = 0 \<and> (y mod 100 \<noteq> 0 \<or> y mod 400 = 0)"

definition daysBefore :: "int \<Rightarrow> int" where
  "daysBefore m = [0, 31, 59, 90, 120, 151, 181, 212, 243, 273, 304, 334] ! nat (m - 1)"

definition daysSinceEpoch :: "int \<Rightarrow> int" where
  "daysSinceEpoch y =
     365 * (y - 1970) + ((y - 1) div 4 - (y - 1) div 100 + (y - 1) div 400) - 477"

definition daysOfDate :: "int \<Rightarrow> int \<Rightarrow> int \<Rightarrow> int" where
  "daysOfDate y m d =
     daysSinceEpoch y + daysBefore m + (if isLeap y \<and> m \<ge> 3 then 1 else 0) + (d - 1)"

definition Date :: "int \<Rightarrow> int \<Rightarrow> int \<Rightarrow> int \<Rightarrow> int \<Rightarrow> int \<Rightarrow> int \<Rightarrow> Location \<Rightarrow> Time" where
  "Date y mo d h mi s ns l =
     (let (y, m) = norm y (mo - 1) 12;
          mo = m + 1;
          (s, ns) = norm s ns 1000000000;
          (mi, s) = norm mi s 60;
          (h, mi) = norm h mi 60;
          (d, h) = norm d h 24;
          abs = daysOfDate y mo d * 86400 + (h * 3600 + mi * 60 + s)
      in \<lparr> unixSec = abs - l, nsec = ns, loc = l \<rparr>)"

text \<open>
  Modelled from the spec: the methods of \<^verbatim>\<open>time.Time\<close> that read a timestamp back in its
  location. \<open>civil\<close> is the proleptic Gregorian date of a day number (days since
  1970-01-01), computed on the 400-year cycle of 146097 days that starts on a March 1st.
  \<^verbatim>\<open>Weekday\<close> counts from Sunday = 0 (1970-01-01 was a Thursday), \<^verbatim>\<open>YearDay\<close> from 1, and
  \<^verbatim>\<open>ISOWeek\<close> is the year and week of the Thursday of the date's Monday-based week.
\<close>

definition localSec :: "Time \<Rightarrow> int" where
  "localSec tm = unixSec tm + loc tm"

definition civil :: "int \<Rightarrow> int \<times> int \<times> int" where
  "civil days =
     (let z = days + 719468;
          era = z div 146097;
          doe = z mod 146097;
          yoe = (doe - doe div 1460 + doe div 36524 - doe div 146096) div 365;
          doy = doe - (365 * yoe + yoe div 4 - yoe div 100);
          mp = (5 * doy + 2) div 153;
          d = doy - (153 * mp + 2) div 5 + 1;
          m = (if mp < 10 then mp + 3 else mp - 9);
          y = yoe + era * 400 + (if m \<le> 2 then 1 else 0)
      in (y, m, d))"

definition Time_Date :: "Time \<Rightarrow> int \<times> int \<times> int" where
  "Time_Date tm = civil (localSec tm div 86400)"

definition Time_Clock :: "Time \<Rightarrow> int \<times> int \<times> int" where
  "Time_Clock tm =
     (let s = localSec tm mod 86400 in (s div 3600, s mod 3600 div 60, s mod 60))"

definition Time_Nanosecond :: "Time \<Rightarrow> int" where
  "Time_Nanosecond tm = nsec tm"

definition yearDayOf :: "int \<Rightarrow> int \<times> int" where
  "yearDayOf days = (let (y, m, d) = civil days in (y, days - daysOfDate y 1 1 + 1))"

definition Time_Weekday :: "Time \<Rightarrow> int" where
  "Time_Weekday tm = (localSec tm div 86400 + 4) mod 7"

definition Time_YearDay :: "Time \<Rightarrow> int" where
  "Time_YearDay tm = snd (yearDayOf (localSec tm div 86400))"

definition Time_ISOWeek :: "Time \<Rightarrow> int \<times> int" where
  "Time_ISOWeek tm =
     (let days = localSec tm div 86400;
          d = 4 - (days + 4) mod 7;
          d = (if d = 4 then - 3 else d);
          (y, yday) = yearDayOf (days + d)
      in (y, (yday - 1) div 7 + 1))"

section \<open>Conversion to an absolute time and the accessors derived from it\<close>

datatype error = ErrInvalidTimeFormat

text \<open>
  \<^verbatim>\<open>GoTime\<close> passes the package variable \<^verbatim>\<open>time.Local\<close>, the local zone of the process, to
  \<^verbatim>\<open>time.Date\<close>; that ambient input is the argument \<open>Local\<close> here. The result is the pair
  of the timestamp and of the error (\<open>None\<close> for \<^verbatim>\<open>nil\<close>; \<^verbatim>\<open>errors.Trace\<close> only annotates
  the error it is given).
\<close>

definition GoTime :: "Location \<Rightarrow> mysqlTime \<Rightarrow> Time \<times> error option" where
  "GoTime Local t =
     (let tm = Date (Year t) (Month t) (Day t) (Hour t) (Minute t) (Second t)
                 (int64 (Microsecond t * 1000)) Local;
          (year, month, day) = Time_Date tm;
          (hour, minute, second) = Time_Clock tm;
          microsec = Time_Nanosecond tm sdiv 1000
      in if year \<noteq> Year t \<or> month \<noteq> Month t \<or> day \<noteq> Day t \<or>
            hour \<noteq> Hour t \<or> minute \<noteq> Minute t \<or> second \<noteq> Second t \<or>
            microsec \<noteq> Microsecond t
         then (tm, Some ErrInvalidTimeFormat)
         else (tm, None))"

text \<open>The three derived accessors drop the error and return the zero value of their type.\<close>

definition Weekday :: "Location \<Rightarrow> mysqlTime \<Rightarrow> int" where
  "Weekday Local t =
     (case GoTime Local t of
        (t1, Some err) \<Rightarrow> 0
      | (t1, None) \<Rightarrow> Time_Weekday t1)"

definition YearDay :: "Location \<Rightarrow> mysqlTime \<Rightarrow> int" where
  "YearDay Local t =
     (case GoTime Local t of
        (t1, Some err) \<Rightarrow> 0
      | (t1, None) \<Rightarrow> Time_YearDay t1)"

definition ISOWeek :: "Location \<Rightarrow> mysqlTime \<Rightarrow> int \<times> int" where
  "ISOWeek Local t =
     (case GoTime Local t of
        (t1, Some err) \<Rightarrow> (0, 0)
      | (t1, None) \<Rightarrow> Time_ISOWeek t1)"

section \<open>Properties\<close>

subsection \<open>Arithmetic of Go integers\<close>

lemma int64_id: "- (2 ^ 63) \<le> x \<Longrightarrow> x < 2 ^ 63 \<Longrightarrow> int64 x = x"
  by (simp add: int64_def signed_take_bit_int_eq_self)

lemma int64_range: "- (2 ^ 63) \<le> int64 x \<and> int64 x < 2 ^ 63"
  using signed_take_bit_int_greater_eq_minus_exp [of 63 x] signed_take_bit_int_less_exp [of 63 x]
  by (simp add: int64_def)

lemma int64_add_left: "int64 (int64 a + b) = int64 (a + b)"
  unfolding int64_def by (metis signed_take_bit_add signed_take_bit_signed_take_bit min.idem)
lemma int64_add_right: "int64 (a + int64 b) = int64 (a + b)"
  using int64_add_left [of b a] by (simp add: add.commute)
lemma int64_diff_left: "int64 (int64 a - b) = int64 (a - b)"
  unfolding int64_def by (metis signed_take_bit_diff signed_take_bit_signed_take_bit min.idem)
lemma int64_diff_right: "int64 (a - int64 b) = int64 (a - b)"
  unfolding int64_def by (metis signed_take_bit_diff signed_take_bit_signed_take_bit min.idem)
lemma int64_mult_right: "int64 (a * int64 b) = int64 (a * b)"
  unfolding int64_def by (metis signed_take_bit_mult signed_take_bit_signed_take_bit min.idem)

lemma and_3_eq_0_iff: "(y AND 3) = 0 \<longleftrightarrow> y smod 4 = 0" for y :: int
proof -
  have "y AND 3 = y mod 4"
    using take_bit_eq_mask [of 2 y] by (simp add: take_bit_eq_mod mask_eq_exp_minus_1)
  moreover have "y smod 4 = 0 \<longleftrightarrow> y mod 4 = 0"
    by (auto simp: signed_modulo_int_def sgn_if abs_if)
  ultimately show ?thesis by simp
qed

lemma smod_nonneg: "0 \<le> x \<Longrightarrow> x smod 7 = x mod 7" for x :: int
  by (simp add: signed_modulo_int_def sgn_if)

lemma sdiv_nonneg: "0 \<le> x \<Longrightarrow> 0 < n \<Longrightarrow> x sdiv n = x div n" for x n :: int
  by (simp add: signed_divide_int_def sgn_if)

text \<open>
  Claim C6. For every year, \<open>calcDaysInYear\<close> returns 366 exactly when the year is
  divisible by 4 and either not divisible by 100, or divisible by 400 and different from
  0, and 365 otherwise (\<open>smod\<close> is Go's \<^verbatim>\<open>%\<close>); the years 0, 2000, 1900 and 2024
  have 365, 366, 365 and 366 days.
\<close>

theorem calcDaysInYear_rule:
  "calcDaysInYear y =
     (if y smod 4 = 0 \<and> (y smod 100 \<noteq> 0 \<or> (y smod 400 = 0 \<and> y \<noteq> 0)) then 366 else 365)
   \<and> calcDaysInYear 0 = 365 \<and> calcDaysInYear 2000 = 366
   \<and> calcDaysInYear 1900 = 365 \<and> calcDaysInYear 2024 = 366"
  by (simp add: calcDaysInYear_def and_3_eq_0_iff)

theorem calcDaysInYear_rule_witness:
  "calcDaysInYear (- 4) = 366 \<and> calcDaysInYear 2100 = 365"
  using calcDaysInYear_rule [of "- 4"] calcDaysInYear_rule [of 2100]
  by (simp add: signed_modulo_int_def)

text \<open>
  Claim C4, as stated, fails: Go's \<^verbatim>\<open>%\<close> takes the sign of its dividend, so that the day
  number \<open>- 6\<close> yields \<open>- 1\<close>, outside 0 to 6, while the day number a week later yields 6.
\<close>

theorem calcWeekday_negative: 
  "calcWeekday (- 6) False = - 1 \<and> calcWeekday (- 6 + 7) False = 6"
  by (simp add: calcWeekday_def int64_def signed_modulo_int_def)

lemma calcWeekday_exact:
  assumes "0 \<le> d + 5 + (if s then 1 else 0)" and "d + 6 < 2 ^ 63"
  shows "calcWeekday d s = (d + 5 + (if s then 1 else 0)) mod 7"
proof (cases s)
  case True
  with assms have nonneg: "0 \<le> d + 5 + 1" by simp
  with assms have "int64 (d + 5) = d + 5" "int64 (d + 5 + 1) = d + 5 + 1"
    by (auto intro!: int64_id)
  with True nonneg show ?thesis
    by (simp only: calcWeekday_def Let_def if_True smod_nonneg)
next
  case False
  with assms have nonneg: "0 \<le> d + 5" by simp
  with assms have "int64 (d + 5) = d + 5"
    by (auto intro!: int64_id)
  with False nonneg show ?thesis
    by (simp only: calcWeekday_def Let_def if_False smod_nonneg add_0_right)
qed

text \<open>
  Claim C4, amended. For both values of the flag and every day number \<open>d\<close> for which
  the sum \<open>d + 5\<close> (plus 1 when Sunday is the first day of the week) is not negative
  and \<open>d + 13\<close> does not overflow, \<open>calcWeekday\<close> returns the floored remainder of
  that sum modulo 7, a value from 0 to 6, and returns the same value for \<open>d + 7\<close>.
\<close>

theorem calcWeekday_nonneg:
  assumes "0 \<le> d + 5 + (if s then 1 else 0)" and "d + 13 < 2 ^ 63"
  shows "0 \<le> calcWeekday d s \<and> calcWeekday d s \<le> 6
         \<and> calcWeekday (d + 7) s = calcWeekday d s
         \<and> calcWeekday d s = (d + 5 + (if s then 1 else 0)) mod 7"
proof -
  define x where "x = d + 5 + (if s then 1 else 0)"
  have 1: "calcWeekday d s = x mod 7"
    unfolding x_def using assms by (intro calcWeekday_exact) auto
  have "calcWeekday (d + 7) s = (d + 7 + 5 + (if s then 1 else 0)) mod 7"
    using assms by (intro calcWeekday_exact) auto
  also have "d + 7 + 5 + (if s then 1 else 0) = x + 7"
    by (simp add: x_def)
  finally have 2: "calcWeekday (d + 7) s = x mod 7"
    by simp
  have 3: "0 \<le> x mod 7" "x mod 7 \<le> 6"
    using pos_mod_bound [of 7 x] by simp_all
  from 3 show ?thesis
    unfolding 1 2 x_def [symmetric] by simp
qed

theorem calcWeekday_nonneg_witness:
  "calcWeekday 730485 False = 5 \<and> calcWeekday (730485 + 7) False = 5 \<and> calcWeekday (- 6) True = 0"
  using calcWeekday_nonneg [of 730485 False] calcWeekday_nonneg [of "- 6" True] by simp

lemma sdiv_abs_le: "\<bar>x sdiv n\<bar> \<le> \<bar>x\<bar> div n" if "0 < n" for x n :: int
  using that pos_imp_zdiv_nonneg_iff [of n "\<bar>x\<bar>"]
  by (simp add: signed_divide_int_def abs_mult abs_sgn_eq)

lemma int64_eq_iff: "int64 a = int64 b \<longleftrightarrow> (word_of_int a :: 64 word) = word_of_int b"
  by (simp add: int64_def signed_take_bit_eq_iff_take_bit_eq word_of_int_eq_iff)

lemma word_of_int64: "(word_of_int (int64 a) :: 64 word) = word_of_int a"
  by (simp add: int64_def word_of_int_eq_iff take_bit_signed_take_bit)

lemma temp_exact:
  assumes "- (2 ^ 63) \<le> y" "y < 2 ^ 63"
  shows "int64 (int64 (y sdiv 100 + 1) * 3) = (y sdiv 100 + 1) * 3"
proof -
  have "\<bar>y sdiv 100\<bar> \<le> \<bar>y\<bar> div 100" by (rule sdiv_abs_le) simp
  moreover have "\<bar>y\<bar> \<le> 2 ^ 63" using assms by simp
  ultimately have b: "\<bar>y sdiv 100\<bar> \<le> 2 ^ 63 div 100"
    by (meson order_trans zdiv_mono1 zero_less_numeral)
  then have "int64 (y sdiv 100 + 1) = y sdiv 100 + 1"
    by (intro int64_id) (simp_all add: abs_le_iff)
  moreover from b have "int64 ((y sdiv 100 + 1) * 3) = (y sdiv 100 + 1) * 3"
    by (intro int64_id) (simp_all add: abs_le_iff)
  ultimately show ?thesis by simp
qed

lemma calcDaynr_wrapped:
  assumes "- (2 ^ 63) < y" "y < 2 ^ 63"
  shows "calcDaynr y m d = int64 (dayNumber y m d)"
proof (cases "y = 0 \<and> m = 0")
  case True
  then show ?thesis by (simp add: calcDaynr_def dayNumber_def int64_def)
next
  case False
  have c: "(23::int) sdiv 10 = 2" by (simp add: signed_divide_int_def)
  show ?thesis
  proof (cases "m \<le> 2")
    case True
    from assms have y: "int64 (y - 1) = y - 1" by (intro int64_id) simp_all
    from assms have t: "int64 (int64 ((y - 1) sdiv 100 + 1) * 3) = ((y - 1) sdiv 100 + 1) * 3"
      by (intro temp_exact) simp_all
    from False True have "calcDaynr y m d =
       int64 (int64 (int64 (int64 (int64 (365 * y) + int64 (31 * int64 (m - 1))) + d)
                + (y - 1) sdiv 4) - ((y - 1) sdiv 100 + 1) * 3 sdiv 4)"
      unfolding calcDaynr_def Let_def if_not_P [OF False] if_P [OF True]
      by (simp add: y t)
    also have "\<dots> = int64 (365 * y + 31 * (m - 1) + d + (y - 1) sdiv 4
                 - ((y - 1) sdiv 100 + 1) * 3 sdiv 4)"
      by (simp add: int64_eq_iff word_of_int64)
    also from True have "\<dots> = int64 (dayNumber y m d)"
      unfolding dayNumber_def Let_def if_not_P [OF False] by simp
    finally show ?thesis .
  next
    case m: False
    from assms have t: "int64 (int64 (y sdiv 100 + 1) * 3) = (y sdiv 100 + 1) * 3"
      by (intro temp_exact) simp_all
    from False m have "calcDaynr y m d =
       int64 (int64 (int64 (int64 (int64 (int64 (365 * y) + int64 (31 * int64 (m - 1))) + d)
                       - int64 (int64 (m * 4) + 2))
                + y sdiv 4) - (y sdiv 100 + 1) * 3 sdiv 4)"
      unfolding calcDaynr_def Let_def if_not_P [OF False] if_not_P [OF m]
      by (simp add: c t)
    also have "\<dots> = int64 (365 * y + 31 * (m - 1) + d - (m * 4 + 2) + y sdiv 4
                 - (y sdiv 100 + 1) * 3 sdiv 4)"
      by (simp add: int64_eq_iff word_of_int64)
    also from m have "\<dots> = int64 (dayNumber y m d)"
      unfolding dayNumber_def Let_def if_not_P [OF False] by simp
    finally show ?thesis .
  qed
qed

subsection \<open>The day number\<close>

text \<open>
  Claim C7. \<open>calcDaynr\<close> returns the value of the specification's formula
  \<open>dayNumber\<close> (0 for year 0 and month 0; otherwise \<open>delsum + y / 4 - ((y / 100 + 1) * 3) / 4\<close>
  with the truncating divisions grouped that way and the constant \<open>23 / 10 = 2\<close>), wrapped
  to the 64 bits of the result; where the formula's value fits into 64 bits, as it does
  for every date of a \<open>mysqlTime\<close>, the two are equal.
\<close>
theorem calcDaynr_formula:
  assumes "- (2 ^ 63) < y" and "y < 2 ^ 63"
  shows "calcDaynr y m d = int64 (dayNumber y m d)
         \<and> (is_int64 (dayNumber y m d) \<longrightarrow> calcDaynr y m d = dayNumber y m d)"
  using calcDaynr_wrapped [OF assms, of m d] by (simp add: is_int64_def int64_id)

theorem calcDaynr_formula_witness:
  "calcDaynr 2000 1 1 = 730485 \<and> calcDaynr 2000 12 31 = 730807 \<and> calcDaynr 0 0 31 = 0"
  using calcDaynr_formula [of 2000 1 1] calcDaynr_formula [of 2000 12 31] calcDaynr_formula [of 0 0 31]
  by (simp add: dayNumber_def int64_def signed_divide_int_def)


subsection \<open>Week numbers of 2000-01-01\<close>

lemmas calcWeek_defs = calcWeek_def calcWeek_rest_def newMysqlTime_def calcDaynr_def
  calcWeekday_def calcDaysInYear_def test_def weekBehaviourMondayFirst_def
  weekBehaviourWeekYear_def weekBehaviourWeekFirstWeekday_def int64_def
  signed_divide_int_def signed_modulo_int_def Let_def

text \<open>
  Claim C1, as stated, fails: for 2000-01-01 the behaviour value 4 gives week 0 of the
  year 2000, not week 1, and the value 6 gives week 52 of 1999.
\<close>

theorem calcWeek_2000_01_01_mode_4:
  "calcWeek (newMysqlTime 2000 1 1 0 0 0 0) 4 = (0, 2000)
   \<and> fst (calcWeek (newMysqlTime 2000 1 1 0 0 0 0) 4) \<noteq> 1
   \<and> calcWeek (newMysqlTime 2000 1 1 0 0 0 0) 6 = (52, 1999)"
  by (simp add: calcWeek_defs)

text \<open>
  Claim C1, amended. For the date 2000-01-01 (whatever the time of day) \<open>calcWeek\<close>
  returns, for the behaviour values 0 to 7 in order, the weeks 0, 0, 52, 52, 0, 0, 52, 52,
  with the owning year 1999 for the values 2, 3, 6 and 7 and 2000 for the others.
\<close>

theorem calcWeek_2000_01_01:
  "map (calcWeek (newMysqlTime 2000 1 1 h mi s us)) [0, 1, 2, 3, 4, 5, 6, 7] =
     [(0, 2000), (0, 2000), (52, 1999), (52, 1999), (0, 2000), (0, 2000), (52, 1999), (52, 1999)]"
  by (simp add: calcWeek_defs)

theorem calcWeek_2000_01_01_witness:
  "map (calcWeek (newMysqlTime 2000 1 1 12 30 15 0)) [0, 1, 2, 3, 4, 5, 6, 7] =
     [(0, 2000), (0, 2000), (52, 1999), (52, 1999), (0, 2000), (0, 2000), (52, 1999), (52, 1999)]"
  using calcWeek_2000_01_01 [of 12 30 15 0] .

subsection \<open>Construction and accessors\<close>

text \<open>
  Claim C8. \<open>newMysqlTime\<close> is total: it rejects no input and stores each component
  narrowed to the width of its field, so that the accessors return the year modulo
  \<open>2 ^ 16\<close>, the month, day, hour, minute and second modulo \<open>2 ^ 8\<close> and the microsecond
  modulo \<open>2 ^ 32\<close>; a component that fits its field (as every component within its
  declared range does) is returned as it was passed.
\<close>
theorem newMysqlTime_narrows:
  "Year (newMysqlTime y mo d h mi s us) = y mod 2 ^ 16
   \<and> Month (newMysqlTime y mo d h mi s us) = mo mod 2 ^ 8
   \<and> Day (newMysqlTime y mo d h mi s us) = d mod 2 ^ 8
   \<and> Hour (newMysqlTime y mo d h mi s us) = h mod 2 ^ 8
   \<and> Minute (newMysqlTime y mo d h mi s us) = mi mod 2 ^ 8
   \<and> Second (newMysqlTime y mo d h mi s us) = s mod 2 ^ 8
   \<and> Microsecond (newMysqlTime y mo d h mi s us) = us mod 2 ^ 32
   \<and> (0 \<le> y \<and> y < 2 ^ 16 \<longrightarrow> Year (newMysqlTime y mo d h mi s us) = y)
   \<and> (0 \<le> mo \<and> mo < 2 ^ 8 \<longrightarrow> Month (newMysqlTime y mo d h mi s us) = mo)
   \<and> (0 \<le> d \<and> d < 2 ^ 8 \<longrightarrow> Day (newMysqlTime y mo d h mi s us) = d)
   \<and> (0 \<le> h \<and> h < 2 ^ 8 \<longrightarrow> Hour (newMysqlTime y mo d h mi s us) = h)
   \<and> (0 \<le> mi \<and> mi < 2 ^ 8 \<longrightarrow> Minute (newMysqlTime y mo d h mi s us) = mi)
   \<and> (0 \<le> s \<and> s < 2 ^ 8 \<longrightarrow> Second (newMysqlTime y mo d h mi s us) = s)
   \<and> (0 \<le> us \<and> us < 2 ^ 32 \<longrightarrow> Microsecond (newMysqlTime y mo d h mi s us) = us)"
  by (simp add: newMysqlTime_def Year_def Month_def Day_def Hour_def Minute_def Second_def
      Microsecond_def uint_word_of_int take_bit_eq_mod)

theorem newMysqlTime_narrows_witness:
  "Year (newMysqlTime 65537 13 31 23 59 59 999999) = 1
   \<and> Month (newMysqlTime 65537 13 31 23 59 59 999999) = 13
   \<and> Second (newMysqlTime 65537 13 31 23 (- 1) 256 999999) = 0
   \<and> Minute (newMysqlTime 65537 13 31 23 (- 1) 256 999999) = 255
   \<and> Microsecond (newMysqlTime 65537 13 31 23 59 59 999999) = 999999"
  using newMysqlTime_narrows [of 65537 13 31 23 59 59 999999]
    newMysqlTime_narrows [of 65537 13 31 23 "- 1" 256 999999]
  by simp

subsection \<open>Day numbers of the dates of a \<open>mysqlTime\<close>\<close>

lemma calcDaysInYear_cases: "calcDaysInYear y = 365 \<or> calcDaysInYear y = 366"
  by (simp add: calcDaysInYear_def)

lemma dayNumber_year_0:
  "m \<le> 2 \<Longrightarrow> m \<noteq> 0 \<Longrightarrow> dayNumber 0 m d = 31 * (m - 1) + d"
  by (simp add: dayNumber_def signed_divide_int_def)

lemma dayNumber_early:
  assumes "1 \<le> y" "m \<le> 2"
  shows "dayNumber y m d = 365 * y + 31 * (m - 1) + d + (y - 1) div 4 - ((y - 1) div 100 + 1) * 3 div 4"
  using assms by (simp add: dayNumber_def sdiv_nonneg Let_def)

lemma dayNumber_late:
  assumes "0 \<le> y" "3 \<le> m"
  shows "dayNumber y m d = 365 * y + 31 * (m - 1) + d - (m * 4 + 2) + y div 4 - (y div 100 + 1) * 3 div 4"
  using assms by (simp add: dayNumber_def sdiv_nonneg Let_def)

lemma div4_step: "(x - 1) div 4 \<le> x div 4 \<and> x div 4 \<le> (x - 1) div 4 + 1" for x :: int
proof -
  have "(x - 1) div 4 \<le> x div 4" by (rule zdiv_mono1) simp_all
  moreover have "x div 4 \<le> (x - 1 + 4) div 4" by (rule zdiv_mono1) simp_all
  moreover have "(x - 1 + 4) div 4 = (x - 1) div 4 + 1" by simp
  ultimately show ?thesis by simp
qed

lemma div100_step: "(x - 1) div 100 \<le> x div 100 \<and> x div 100 \<le> (x - 1) div 100 + 1" for x :: int
proof -
  have "(x - 1) div 100 \<le> x div 100" by (rule zdiv_mono1) simp_all
  moreover have "x div 100 \<le> (x - 1 + 100) div 100" by (rule zdiv_mono1) simp_all
  moreover have "(x - 1 + 100) div 100 = (x - 1) div 100 + 1" by simp
  ultimately show ?thesis by simp
qed

lemma temp_step:
  fixes k k' :: int
  assumes "k' \<le> k" "k \<le> k' + 1"
  shows "(k' + 1) * 3 div 4 \<le> (k + 1) * 3 div 4 \<and> (k + 1) * 3 div 4 \<le> (k' + 1) * 3 div 4 + 1"
proof -
  have "(k' + 1) * 3 div 4 \<le> (k + 1) * 3 div 4"
    using assms by (intro zdiv_mono1) simp_all
  moreover have "(k + 1) * 3 div 4 \<le> ((k' + 1) * 3 + 4) div 4"
    using assms by (intro zdiv_mono1) simp_all
  moreover have "((k' + 1) * 3 + 4) div 4 = (k' + 1) * 3 div 4 + 1" by simp
  ultimately show ?thesis by simp
qed

lemma temp_bounds:
  fixes k :: int
  assumes "0 \<le> k"
  shows "0 \<le> (k + 1) * 3 div 4 \<and> (k + 1) * 3 div 4 \<le> k + 1"
proof -
  have "0 \<le> (k + 1) * 3 div 4"
    using assms by (simp add: pos_imp_zdiv_nonneg_iff)
  moreover have "(k + 1) * 3 div 4 \<le> (k + 1) * 4 div 4"
    using assms by (intro zdiv_mono1) simp_all
  ultimately show ?thesis by simp
qed

lemma dayNumber_jan1:
  assumes "0 \<le> y"
  shows "1 \<le> dayNumber y 1 1" and "dayNumber y 1 1 \<le> 366 * y + 1"
proof -
  have "1 \<le> dayNumber y 1 1 \<and> dayNumber y 1 1 \<le> 366 * y + 1"
  proof (cases "y = 0")
    case True then show ?thesis by (simp add: dayNumber_year_0)
  next
    case False
    with assms have y: "1 \<le> y" by simp
    define q where "q = (y - 1) div 4"
    define k where "k = (y - 1) div 100"
    define c where "c = (k + 1) * 3 div 4"
    have dn: "dayNumber y 1 1 = 365 * y + 1 + q - c"
      using y by (simp add: dayNumber_early q_def k_def c_def)
    have k: "0 \<le> k" "k \<le> y - 1"
      using y zdiv_mono2 [of "y - 1" 1 100] by (simp_all add: k_def pos_imp_zdiv_nonneg_iff)
    have q: "0 \<le> q" "q \<le> y - 1"
      using y zdiv_mono2 [of "y - 1" 1 4] by (simp_all add: q_def pos_imp_zdiv_nonneg_iff)
    from temp_bounds [of k] k have c: "0 \<le> c" "c \<le> y" by (simp_all add: c_def)
    show ?thesis unfolding dn using q c by simp
  qed
  then show "1 \<le> dayNumber y 1 1" and "dayNumber y 1 1 \<le> 366 * y + 1" by simp_all
qed

lemma dayNumber_diff_early:
  assumes "0 \<le> y" "1 \<le> m" "m \<le> 2"
  shows "dayNumber y m d - dayNumber y 1 1 = 31 * (m - 1) + d - 1"
proof (cases "y = 0")
  case True with assms show ?thesis by (simp add: dayNumber_year_0)
next
  case False
  with assms have "1 \<le> y" by simp
  with assms show ?thesis by (simp add: dayNumber_early)
qed

lemma dayNumber_diff_late:
  assumes "0 \<le> y" "3 \<le> m"
  shows "27 * m - 35 + d \<le> dayNumber y m d - dayNumber y 1 1"
    and "dayNumber y m d - dayNumber y 1 1 \<le> 27 * m - 33 + d"
proof -
  have "27 * m - 35 + d \<le> dayNumber y m d - dayNumber y 1 1
        \<and> dayNumber y m d - dayNumber y 1 1 \<le> 27 * m - 33 + d"
  proof (cases "y = 0")
    case True with assms show ?thesis by (simp add: dayNumber_year_0 dayNumber_late)
  next
    case False
    with assms have y: "1 \<le> y" by simp
    define q q' where "q = y div 4" and "q' = (y - 1) div 4"
    define c c' where "c = (y div 100 + 1) * 3 div 4" and "c' = ((y - 1) div 100 + 1) * 3 div 4"
    have 1: "dayNumber y m d = 365 * y + 31 * (m - 1) + d - (m * 4 + 2) + q - c"
      using assms by (simp add: dayNumber_late q_def c_def)
    have 2: "dayNumber y 1 1 = 365 * y + 1 + q' - c'"
      using y by (simp add: dayNumber_early q'_def c'_def)
    have 3: "q' \<le> q" "q \<le> q' + 1"
      using div4_step [of y] by (simp_all add: q_def q'_def)
    have 4: "c' \<le> c" "c \<le> c' + 1"
      using temp_step [of "(y - 1) div 100" "y div 100"] div100_step [of y]
      by (simp_all add: c_def c'_def)
    show ?thesis unfolding 1 2 using 3 4 by simp
  qed
  then show "27 * m - 35 + d \<le> dayNumber y m d - dayNumber y 1 1"
    and "dayNumber y m d - dayNumber y 1 1 \<le> 27 * m - 33 + d" by simp_all
qed


lemma dayNumber_fields:
  assumes "0 \<le> y" "y < 65536" "1 \<le> m" "m \<le> 12" "0 \<le> d" "d \<le> 255"
  shows "0 \<le> dayNumber y m d" and "dayNumber y m d \<le> 24000000"
proof -
  note j = dayNumber_jan1 [OF assms(1)]
  have "- 1 \<le> dayNumber y m d - dayNumber y 1 1 \<and> dayNumber y m d - dayNumber y 1 1 \<le> 600"
  proof (cases "m \<le> 2")
    case True
    with assms show ?thesis by (simp add: dayNumber_diff_early)
  next
    case False
    then have m3: "3 \<le> m" by simp
    from dayNumber_diff_late [OF assms(1) m3, of d] assms m3 show ?thesis by simp
  qed
  with j assms show "0 \<le> dayNumber y m d" and "dayNumber y m d \<le> 24000000" by simp_all
qed

lemma calcDaynr_fields:
  assumes "0 \<le> y" "y < 65536" "1 \<le> m" "m \<le> 12" "0 \<le> d" "d \<le> 255"
  shows "calcDaynr y m d = dayNumber y m d"
proof -
  from assms have "calcDaynr y m d = int64 (dayNumber y m d)"
    by (intro calcDaynr_wrapped) simp_all
  also from dayNumber_fields [OF assms] have "\<dots> = dayNumber y m d"
    by (intro int64_id) simp_all
  finally show ?thesis .
qed

lemma sdiv7_nonneg: "0 \<le> x \<Longrightarrow> x sdiv 7 = x div 7" for x :: int
  by (rule sdiv_nonneg) simp_all

lemma calcWeek_rest_exact:
  assumes "\<bar>daynr\<bar> \<le> 2 ^ 40" "\<bar>first\<bar> \<le> 2 ^ 40" "0 \<le> wd" "wd \<le> 6" "\<bar>yr\<bar> \<le> 2 ^ 40"
    and days: "days = (if (fw \<and> wd \<noteq> 0) \<or> (\<not> fw \<and> wd \<ge> 4)
                 then daynr - first - 7 + wd else daynr - first + wd)"
    and "0 \<le> days"
  shows "calcWeek_rest daynr first wd wy fw yr =
     (if wy \<and> days \<ge> 364 then
        if (\<not> fw \<and> (wd + calcDaysInYear yr) mod 7 < 4) \<or> (fw \<and> (wd + calcDaysInYear yr) mod 7 = 0)
        then (1, yr + 1) else (days div 7 + 1, yr)
      else (days div 7 + 1, yr))"
proof -
  have a: "int64 (first + 7) = first + 7" "int64 (first + 7 - wd) = first + 7 - wd"
    "int64 (first - wd) = first - wd"
    "int64 (daynr - (first + 7 - wd)) = daynr - (first + 7 - wd)"
    "int64 (daynr - (first - wd)) = daynr - (first - wd)"
    "int64 (yr + 1) = yr + 1"
    using assms(1-5) by (auto intro!: int64_id)
  have b: "int64 (wd + calcDaysInYear yr) = wd + calcDaysInYear yr" "0 \<le> wd + calcDaysInYear yr"
    using assms(3,4) calcDaysInYear_cases [of yr] by (auto intro!: int64_id)
  have "days div 7 \<le> days" using \<open>0 \<le> days\<close> zdiv_mono2 [of days 1 7] by simp
  moreover have "0 \<le> days div 7" using \<open>0 \<le> days\<close> by (simp add: pos_imp_zdiv_nonneg_iff)
  moreover have "days \<le> 2 ^ 42" using assms(1-4) by (auto simp: days)
  ultimately have c: "int64 (days div 7 + 1) = days div 7 + 1"
    by (intro int64_id) simp_all
  have d: "(if (fw \<and> wd \<noteq> 0) \<or> (\<not> fw \<and> wd \<ge> 4)
             then daynr - (first + 7 - wd) else daynr - (first - wd)) = days"
    by (simp add: days)
  show ?thesis
    unfolding calcWeek_rest_def Let_def a b(1) smod_nonneg [OF b(2)] d
      sdiv7_nonneg [OF \<open>0 \<le> days\<close>] c
    by simp
qed

subsection \<open>The two paths of \<open>calcWeek\<close>\<close>

lemma calcWeek_rest_late:
  assumes "0 \<le> daynr" "daynr \<le> 2 ^ 30" "0 \<le> first" "first \<le> 2 ^ 30" "0 \<le> wd" "wd \<le> 6"
    "0 \<le> yr" "yr \<le> 2 ^ 30"
    and "7 - wd \<le> daynr - first" "daynr - first \<le> 350"
  shows "1 \<le> fst (calcWeek_rest daynr first wd wy fw yr)"
    and "fst (calcWeek_rest daynr first wd wy fw yr) \<le> 53"
    and "snd (calcWeek_rest daynr first wd wy fw yr) = yr"
proof -
  define days where "days = (if (fw \<and> wd \<noteq> 0) \<or> (\<not> fw \<and> wd \<ge> 4)
                 then daynr - first - 7 + wd else daynr - first + wd)"
  have d: "0 \<le> days" "days \<le> 356"
    using assms by (auto simp: days_def)
  have "calcWeek_rest daynr first wd wy fw yr = (days div 7 + 1, yr)"
    using calcWeek_rest_exact [of daynr first wd yr days fw wy] assms(1-8) d
    by (simp add: days_def)
  moreover have "0 \<le> days div 7" "days div 7 \<le> 50"
    using d zdiv_mono1 [of days 356 7] by (simp_all add: pos_imp_zdiv_nonneg_iff)
  ultimately show "1 \<le> fst (calcWeek_rest daynr first wd wy fw yr)"
    and "fst (calcWeek_rest daynr first wd wy fw yr) \<le> 53"
    and "snd (calcWeek_rest daynr first wd wy fw yr) = yr"
    by simp_all
qed

lemma calcWeek_rest_early_aux:
  fixes e wd0 dpy :: int
  assumes "0 \<le> wd0" "wd0 \<le> 6" "dpy = 365 \<or> dpy = 366" "- 1 \<le> e" "e \<le> 6 - wd0"
    and "wd = (wd0 + 371 - dpy) mod 7"
    and "days = (if (fw \<and> wd \<noteq> 0) \<or> (\<not> fw \<and> wd \<ge> 4) then e + dpy - 7 + wd else e + dpy + wd)"
  shows "357 \<le> days \<and> days \<le> 377 \<and>
     (days \<ge> 371 \<longrightarrow> (\<not> fw \<and> (wd + dpy) mod 7 < 4) \<or> (fw \<and> (wd + dpy) mod 7 = 0))"
proof -
  from assms(1,2) have w: "wd0 = 0 \<or> wd0 = 1 \<or> wd0 = 2 \<or> wd0 = 3 \<or> wd0 = 4 \<or> wd0 = 5 \<or> wd0 = 6"
    by arith
  from w assms(3-5) show ?thesis
    unfolding assms(6,7) by (elim disjE; cases fw; simp; linarith?)
qed


lemma calcWeek_rest_early:
  assumes "0 \<le> daynr" "daynr \<le> 2 ^ 30" "0 \<le> first" "first \<le> 2 ^ 30" "0 \<le> wd0" "wd0 \<le> 6"
    "- 1 \<le> yr" "yr \<le> 2 ^ 30"
    and "- 1 \<le> daynr - first" "daynr - first \<le> 6 - wd0"
    and r_def: "r = calcWeek_rest daynr (first - calcDaysInYear yr)
                   ((wd0 + 371 - calcDaysInYear yr) mod 7) True fw yr"
  shows "1 \<le> fst r" and "fst r \<le> 53" and "snd r = yr \<or> r = (1, yr + 1)"
proof -
  define dpy where "dpy = calcDaysInYear yr"
  define wd where "wd = (wd0 + 371 - dpy) mod 7"
  define days where "days = (if (fw \<and> wd \<noteq> 0) \<or> (\<not> fw \<and> wd \<ge> 4)
       then (daynr - first) + dpy - 7 + wd else (daynr - first) + dpy + wd)"
  have dpy: "dpy = 365 \<or> dpy = 366"
    unfolding dpy_def by (rule calcDaysInYear_cases)
  have wd: "0 \<le> wd" "wd \<le> 6"
    using pos_mod_bound [of 7 "wd0 + 371 - dpy"] by (simp_all add: wd_def)
  from calcWeek_rest_early_aux [OF assms(5,6) dpy assms(9,10) wd_def days_def]
  have aux: "357 \<le> days" "days \<le> 377"
    "days \<ge> 371 \<Longrightarrow> (\<not> fw \<and> (wd + dpy) mod 7 < 4) \<or> (fw \<and> (wd + dpy) mod 7 = 0)"
    by simp_all
  have days': "days = (if (fw \<and> wd \<noteq> 0) \<or> (\<not> fw \<and> wd \<ge> 4)
       then daynr - (first - dpy) - 7 + wd else daynr - (first - dpy) + wd)"
    by (simp add: days_def)
  have b: "\<bar>daynr\<bar> \<le> 2 ^ 40" "\<bar>first - dpy\<bar> \<le> 2 ^ 40" "\<bar>yr\<bar> \<le> 2 ^ 40"
    using assms(1-4,7,8) dpy by auto
  have r: "r = (if days \<ge> 364 then
        if (\<not> fw \<and> (wd + dpy) mod 7 < 4) \<or> (fw \<and> (wd + dpy) mod 7 = 0)
        then (1, yr + 1) else (days div 7 + 1, yr)
      else (days div 7 + 1, yr))"
    using calcWeek_rest_exact [OF b(1,2) wd b(3) days', of True] aux(1)
    by (simp add: r_def wd_def dpy_def)
  have lo: "51 \<le> days div 7"
    using zdiv_mono1 [of 357 days 7] aux(1) by simp
  have hi: "days < 371 \<Longrightarrow> days div 7 \<le> 52"
    using zdiv_mono1 [of days 370 7] by simp
  show "1 \<le> fst r" using lo by (simp add: r)
  show "fst r \<le> 53"
  proof (cases "371 \<le> days")
    case True
    with aux(3) [OF True] show ?thesis by (simp add: r)
  next
    case False
    with hi have "days div 7 \<le> 52" by simp
    then show ?thesis by (simp add: r)
  qed
  show "snd r = yr \<or> r = (1, yr + 1)" by (simp add: r)
qed

lemma word8_eq_1_iff: "w = 1 \<longleftrightarrow> uint w = 1" for w :: "8 word"
  by (simp add: word_uint_eq_iff)

lemma calcWeekday_jan1:
  assumes "0 \<le> y" "y < 65536"
  shows "0 \<le> calcWeekday (dayNumber y 1 1) s" and "calcWeekday (dayNumber y 1 1) s \<le> 6"
proof -
  from dayNumber_jan1 [OF assms(1)] assms(2)
  have f: "0 \<le> dayNumber y 1 1 + 5 + (if s then 1 else 0)" "dayNumber y 1 1 + 6 < 2 ^ 63"
    by simp_all
  have "calcWeekday (dayNumber y 1 1) s = (dayNumber y 1 1 + 5 + (if s then 1 else 0)) mod 7"
    by (rule calcWeekday_exact [OF f])
  moreover have "0 \<le> (dayNumber y 1 1 + 5 + (if s then 1 else 0)) mod 7"
    "(dayNumber y 1 1 + 5 + (if s then 1 else 0)) mod 7 \<le> 6"
    using pos_mod_bound [of 7 "dayNumber y 1 1 + 5 + (if s then 1 else 0)"] by simp_all
  ultimately show "0 \<le> calcWeekday (dayNumber y 1 1) s" and "calcWeekday (dayNumber y 1 1) s \<le> 6"
    by simp_all
qed

lemma calcWeek_unfold:
  fixes t :: mysqlTime and wb :: weekBehaviour
  defines "Y \<equiv> uint (year t)" and "M \<equiv> uint (month t)" and "D \<equiv> uint (day t)"
  defines "wd \<equiv> calcWeekday (calcDaynr Y 1 1) (\<not> test wb weekBehaviourMondayFirst)"
  defines "wy \<equiv> test wb weekBehaviourWeekYear" and "fw \<equiv> test wb weekBehaviourWeekFirstWeekday"
  assumes M: "1 \<le> M" "M \<le> 12"
  shows "calcWeek t wb =
    (if M = 1 \<and> D \<le> 7 - wd then
       if \<not> wy \<and> ((fw \<and> wd \<noteq> 0) \<or> (\<not> fw \<and> wd \<ge> 4)) then (0, Y)
       else calcWeek_rest (dayNumber Y M D) (dayNumber Y 1 1 - calcDaysInYear (Y - 1))
              ((wd + 371 - calcDaysInYear (Y - 1)) mod 7) True fw (Y - 1)
     else calcWeek_rest (dayNumber Y M D) (dayNumber Y 1 1) wd wy fw Y)"
    and "0 \<le> wd" and "wd \<le> 6"
proof -
  have Y: "0 \<le> Y" "Y < 65536"
    using uint_lt2p [of "year t"] by (simp_all add: Y_def)
  have D: "0 \<le> D" "D \<le> 255"
    using uint_lt2p [of "day t"] by (simp_all add: D_def)
  have F: "calcDaynr Y 1 1 = dayNumber Y 1 1"
    using Y by (intro calcDaynr_fields) simp_all
  have N: "calcDaynr Y M D = dayNumber Y M D"
    using Y M D by (intro calcDaynr_fields) simp_all
  show wd: "0 \<le> wd" "wd \<le> 6"
    unfolding wd_def F using calcWeekday_jan1 [OF Y] by simp_all
  have i7: "int64 (7 - wd) = 7 - wd"
    using wd by (intro int64_id) simp_all
  have m1: "month t = 1 \<longleftrightarrow> M = 1"
    unfolding M_def by (rule word8_eq_1_iff)
  have Y1: "int64 (Y - 1) = Y - 1"
    using Y by (intro int64_id) simp_all
  note dpy = calcDaysInYear_cases [of "Y - 1"]
  note j = dayNumber_jan1 [OF Y(1)]
  have F1: "int64 (dayNumber Y 1 1 - calcDaysInYear (Y - 1)) = dayNumber Y 1 1 - calcDaysInYear (Y - 1)"
    using j Y dpy by (intro int64_id) auto
  have w1: "int64 (wd + 53 * 7) = wd + 371"
    using wd by (intro int64_id [THEN trans]) simp_all
  have w2: "int64 (wd + 371 - calcDaysInYear (Y - 1)) = wd + 371 - calcDaysInYear (Y - 1)"
    using wd dpy by (intro int64_id) auto
  have w3: "(wd + 371 - calcDaysInYear (Y - 1)) smod 7 = (wd + 371 - calcDaysInYear (Y - 1)) mod 7"
    using wd dpy by (intro smod_nonneg) auto
  have "calcWeek t wb =
    (if month t = 1 \<and> D \<le> int64 (7 - wd) then
       if \<not> wy \<and> ((fw \<and> wd \<noteq> 0) \<or> (\<not> fw \<and> wd \<ge> 4)) then (0, Y)
       else calcWeek_rest (calcDaynr Y M D) (int64 (calcDaynr Y 1 1 - calcDaysInYear (int64 (Y - 1))))
              (int64 (int64 (wd + 53 * 7) - calcDaysInYear (int64 (Y - 1))) smod 7) True fw (int64 (Y - 1))
     else calcWeek_rest (calcDaynr Y M D) (calcDaynr Y 1 1) wd wy fw Y)"
    unfolding calcWeek_def Let_def Y_def M_def D_def wd_def wy_def fw_def ..
  then show "calcWeek t wb =
    (if M = 1 \<and> D \<le> 7 - wd then
       if \<not> wy \<and> ((fw \<and> wd \<noteq> 0) \<or> (\<not> fw \<and> wd \<ge> 4)) then (0, Y)
       else calcWeek_rest (dayNumber Y M D) (dayNumber Y 1 1 - calcDaysInYear (Y - 1))
              ((wd + 371 - calcDaysInYear (Y - 1)) mod 7) True fw (Y - 1)
     else calcWeek_rest (dayNumber Y M D) (dayNumber Y 1 1) wd wy fw Y)"
    unfolding i7 m1 Y1 F N F1 w1 w2 w3 .
qed

subsection \<open>The range of the week\<close>

text \<open>
  Claim C2, as stated, fails outside the calendar ranges, which a \<open>mysqlTime\<close> does
  not enforce: with the \<^verbatim>\<open>WeekYear\<close> bit set the zero date 2000-00-00 gets week \<open>- 3\<close> and
  the date with month 14 and day 27 gets week 54; with the bit unset, month 0 and day 20
  gets week 0 although its month is not 1.
\<close>

theorem calcWeek_out_of_range:
  "calcWeek (newMysqlTime 2000 0 0 0 0 0 0) 2 = (- 3, 2000)
   \<and> calcWeek (newMysqlTime 2000 14 27 0 0 0 0) 6 = (54, 2000)
   \<and> test 2 weekBehaviourWeekYear \<and> test 6 weekBehaviourWeekYear
   \<and> calcWeek (newMysqlTime 2000 0 20 0 0 0 0) 0 = (0, 2000)
   \<and> \<not> test 0 weekBehaviourWeekYear"
  by code_simp

lemma late_bounds_low_month:
  fixes M D wd e :: int
  assumes "1 \<le> M" "M \<le> 2" "0 \<le> D" "D \<le> 31" "0 \<le> wd" "wd \<le> 6"
    and "\<not> (M = 1 \<and> D \<le> 7 - wd)" and "e = 31 * (M - 1) + D - 1"
  shows "7 - wd \<le> e \<and> e \<le> 350"
  using assms by (cases "M = 1") auto

lemma late_bounds_high_month:
  fixes M D wd e :: int
  assumes "3 \<le> M" "M \<le> 12" "0 \<le> D" "D \<le> 31" "0 \<le> wd" "wd \<le> 6"
    and "27 * M - 35 + D \<le> e" and "e \<le> 27 * M - 33 + D"
  shows "7 - wd \<le> e \<and> e \<le> 350"
  using assms by auto

text \<open>
  Claim C2, amended. For every date whose month is from 1 to 12 and whose day is at most
  31: when the \<^verbatim>\<open>WeekYear\<close> bit is set the week returned by \<open>calcWeek\<close> lies in 1 to 53;
  when it is unset the week lies in 0 to 53 and is 0 only if the month is 1 and the day is
  at most 7 minus the weekday index of January 1st.
\<close>

theorem calcWeek_range:
  assumes "1 \<le> Month t" and "Month t \<le> 12" and "Day t \<le> 31"
  shows "(test wb weekBehaviourWeekYear \<longrightarrow>
            1 \<le> fst (calcWeek t wb) \<and> fst (calcWeek t wb) \<le> 53)
       \<and> (\<not> test wb weekBehaviourWeekYear \<longrightarrow>
            0 \<le> fst (calcWeek t wb) \<and> fst (calcWeek t wb) \<le> 53
            \<and> (fst (calcWeek t wb) = 0 \<longrightarrow>
                  Month t = 1
                  \<and> Day t \<le> 7 - calcWeekday (calcDaynr (Year t) 1 1)
                                  (\<not> test wb weekBehaviourMondayFirst)))"
proof -
  let ?Y = "uint (year t)" and ?M = "uint (month t)" and ?D = "uint (day t)"
  let ?wd = "calcWeekday (calcDaynr ?Y 1 1) (\<not> test wb weekBehaviourMondayFirst)"
  let ?wy = "test wb weekBehaviourWeekYear" and ?fw = "test wb weekBehaviourWeekFirstWeekday"
  let ?F = "dayNumber ?Y 1 1" and ?N = "dayNumber ?Y ?M ?D"
  from assms have M: "1 \<le> ?M" "?M \<le> 12" and D31: "?D \<le> 31"
    by (simp_all add: Month_def Day_def)
  note u = calcWeek_unfold [OF M, of wb]
  note wd = u(2,3)
  have Y: "0 \<le> ?Y" "?Y < 65536"
    using uint_lt2p [of "year t"] by simp_all
  have D: "0 \<le> ?D" "?D \<le> 255"
    using D31 by simp_all
  have F: "0 \<le> ?F" "?F \<le> 2 ^ 30"
    using dayNumber_jan1 [OF Y(1)] Y(2) by simp_all
  have N: "0 \<le> ?N" "?N \<le> 2 ^ 30"
    using dayNumber_fields [OF Y M D] by simp_all
  have Yb1: "?Y \<le> 2 ^ 30" "?Y - 1 \<le> 2 ^ 30"
    using Y(2) by simp_all
  have "- 1 \<le> ?Y - 1"
    using Y(1) by linarith
  note Yb = Yb1(1) this Yb1(2)
  have week: "0 \<le> fst (calcWeek t wb) \<and> fst (calcWeek t wb) \<le> 53
      \<and> (fst (calcWeek t wb) = 0 \<longrightarrow> \<not> ?wy \<and> ?M = 1 \<and> ?D \<le> 7 - ?wd)"
  proof (cases "?M = 1 \<and> ?D \<le> 7 - ?wd")
    case early: True
    show ?thesis
    proof (cases "\<not> ?wy \<and> ((?fw \<and> ?wd \<noteq> 0) \<or> (\<not> ?fw \<and> ?wd \<ge> 4))")
      case True
      with early u(1) have "calcWeek t wb = (0, ?Y)" by simp
      with True early show ?thesis by simp
    next
      case False
      with early u(1) have c: "calcWeek t wb =
        calcWeek_rest ?N (?F - calcDaysInYear (?Y - 1))
          ((?wd + 371 - calcDaysInYear (?Y - 1)) mod 7) True ?fw (?Y - 1)"
        by simp
      from early have "?N - ?F = ?D - 1"
        using dayNumber_diff_early [OF Y(1), of 1 ?D] by simp
      with early uint_ge_0 [of "day t"] have e: "- 1 \<le> ?N - ?F" "?N - ?F \<le> 6 - ?wd"
        by linarith+
      from calcWeek_rest_early(1,2) [OF N F wd Yb(2,3) e c]
      show ?thesis by simp
    qed
  next
    case late: False
    with u(1) have c: "calcWeek t wb = calcWeek_rest ?N ?F ?wd ?wy ?fw ?Y" by simp
    have e: "7 - ?wd \<le> ?N - ?F \<and> ?N - ?F \<le> 350"
    proof (cases "?M \<le> 2")
      case True
      from dayNumber_diff_early [OF Y(1) M(1) True, of ?D]
      have "?N - ?F = 31 * (?M - 1) + ?D - 1" .
      from late_bounds_low_month [OF M(1) True D(1) D31 wd late this]
      show ?thesis .
    next
      case False
      then have m3: "3 \<le> ?M" by simp
      from late_bounds_high_month [OF m3 M(2) D(1) D31 wd dayNumber_diff_late [OF Y(1) m3, of ?D]]
      show ?thesis .
    qed
    from calcWeek_rest_late(1,2) [OF N F wd Y(1) Yb(1) e [THEN conjunct1] e [THEN conjunct2], of ?wy ?fw]
    show ?thesis by (simp add: c)
  qed
  then show ?thesis
    by (auto simp: Month_def Day_def Year_def)
qed

theorem calcWeek_range_witness:
  "1 \<le> Month (newMysqlTime 2001 1 1 0 0 0 0) \<and> Month (newMysqlTime 2001 1 1 0 0 0 0) \<le> 12
   \<and> Day (newMysqlTime 2001 1 1 0 0 0 0) \<le> 31
   \<and> test 3 weekBehaviourWeekYear
   \<and> 1 \<le> fst (calcWeek (newMysqlTime 2001 1 1 0 0 0 0) 3)
   \<and> fst (calcWeek (newMysqlTime 2001 1 1 0 0 0 0) 3) \<le> 53
   \<and> \<not> test 0 weekBehaviourWeekYear
   \<and> fst (calcWeek (newMysqlTime 2001 1 1 0 0 0 0) 0) \<noteq> 0
   \<and> 0 \<le> fst (calcWeek (newMysqlTime 2001 1 1 0 0 0 0) 0)
   \<and> fst (calcWeek (newMysqlTime 2000 1 1 0 0 0 0) 0) = 0
   \<and> Day (newMysqlTime 2000 1 1 0 0 0 0)
        \<le> 7 - calcWeekday (calcDaynr (Year (newMysqlTime 2000 1 1 0 0 0 0)) 1 1)
                 (\<not> test 0 weekBehaviourMondayFirst)"
proof -
  have h: "1 \<le> Month (newMysqlTime 2001 1 1 0 0 0 0)" "Month (newMysqlTime 2001 1 1 0 0 0 0) \<le> 12"
    "Day (newMysqlTime 2001 1 1 0 0 0 0) \<le> 31"
    by (simp_all add: Month_def Day_def newMysqlTime_def)
  have h': "1 \<le> Month (newMysqlTime 2000 1 1 0 0 0 0)" "Month (newMysqlTime 2000 1 1 0 0 0 0) \<le> 12"
    "Day (newMysqlTime 2000 1 1 0 0 0 0) \<le> 31"
    by (simp_all add: Month_def Day_def newMysqlTime_def)
  have w: "test 3 weekBehaviourWeekYear" "\<not> test 0 weekBehaviourWeekYear"
    by (simp_all add: test_def weekBehaviourWeekYear_def)
  have v: "fst (calcWeek (newMysqlTime 2000 1 1 0 0 0 0) 0) = 0"
    "fst (calcWeek (newMysqlTime 2001 1 1 0 0 0 0) 0) \<noteq> 0"
    by code_simp+
  from calcWeek_range [OF h, of 3] calcWeek_range [OF h, of 0] calcWeek_range [OF h', of 0] h w v
  show ?thesis by blast
qed

subsection \<open>The owning year\<close>

lemma leap_terms_bounds:
  fixes x :: int
  assumes "0 \<le> x"
  shows "0 \<le> x div 4" and "x div 4 \<le> x"
    and "0 \<le> (x div 100 + 1) * 3 div 4" and "(x div 100 + 1) * 3 div 4 \<le> x + 1"
proof -
  show q: "0 \<le> x div 4" "x div 4 \<le> x"
    using assms zdiv_mono2 [of x 1 4] by (simp_all add: pos_imp_zdiv_nonneg_iff)
  have k: "0 \<le> x div 100" "x div 100 \<le> x"
    using assms zdiv_mono2 [of x 1 100] by (simp_all add: pos_imp_zdiv_nonneg_iff)
  from temp_bounds [OF k(1)] k(2)
  show "0 \<le> (x div 100 + 1) * 3 div 4" and "(x div 100 + 1) * 3 div 4 \<le> x + 1"
    by simp_all
qed

lemma dayNumber_any_field:
  assumes "0 \<le> y" "y < 65536" "0 \<le> m" "m \<le> 255" "0 \<le> d" "d \<le> 255"
  shows "0 \<le> dayNumber y m d" and "dayNumber y m d \<le> 2 ^ 25"
proof -
  have "0 \<le> dayNumber y m d \<and> dayNumber y m d \<le> 2 ^ 25"
  proof (cases "m \<le> 2")
    case low: True
    show ?thesis
    proof (cases "y = 0")
      case True
      show ?thesis
      proof (cases "m = 0")
        case True
        with \<open>y = 0\<close> show ?thesis by (simp add: dayNumber_def)
      next
        case False
        with \<open>y = 0\<close> low assms show ?thesis by (simp add: dayNumber_year_0)
      qed
    next
      case False
      with assms have y: "1 \<le> y" by simp
      then have x: "0 \<le> y - 1" by simp
      define q where "q = (y - 1) div 4"
      define c where "c = ((y - 1) div 100 + 1) * 3 div 4"
      have dn: "dayNumber y m d = 365 * y + 31 * (m - 1) + d + q - c"
        using y low by (simp add: dayNumber_early q_def c_def)
      from leap_terms_bounds [OF x] have "0 \<le> q" "q \<le> y - 1" "0 \<le> c" "c \<le> y"
        by (simp_all add: q_def c_def)
      with assms y show ?thesis unfolding dn by simp
    qed
  next
    case False
    then have m3: "3 \<le> m" by simp
    define q where "q = y div 4"
    define c where "c = (y div 100 + 1) * 3 div 4"
    have dn: "dayNumber y m d = 365 * y + 31 * (m - 1) + d - (m * 4 + 2) + q - c"
      using assms(1) m3 by (simp add: dayNumber_late q_def c_def)
    from leap_terms_bounds [OF assms(1)] have "0 \<le> q" "q \<le> y" "0 \<le> c" "c \<le> y + 1"
      by (simp_all add: q_def c_def)
    with assms m3 show ?thesis unfolding dn by simp
  qed
  then show "0 \<le> dayNumber y m d" and "dayNumber y m d \<le> 2 ^ 25" by simp_all
qed

lemma calcDaynr_any_field:
  assumes "0 \<le> y" "y < 65536" "0 \<le> m" "m \<le> 255" "0 \<le> d" "d \<le> 255"
  shows "calcDaynr y m d = dayNumber y m d"
proof -
  from assms have "calcDaynr y m d = int64 (dayNumber y m d)"
    by (intro calcDaynr_wrapped) simp_all
  also from dayNumber_any_field [OF assms] have "\<dots> = dayNumber y m d"
    by (intro int64_id) simp_all
  finally show ?thesis .
qed

lemma int64_succ_neq: "int64 (yr + 1) \<noteq> yr"
proof
  assume a: "int64 (yr + 1) = yr"
  then have "int64 (int64 (yr + 1)) = int64 yr" by simp
  then have "int64 (yr + 1) = int64 yr"
    by (simp add: int64_def)
  then have "(word_of_int (yr + 1) :: 64 word) = word_of_int yr"
    by (simp only: int64_eq_iff)
  then show False by simp
qed

lemma calcWeek_rest_year:
  "snd (calcWeek_rest dn fd wd wy fw yr) = yr
   \<or> calcWeek_rest dn fd wd wy fw yr = (1, int64 (yr + 1))"
  by (simp add: calcWeek_rest_def Let_def)

lemma calcWeek_rest_guard:
  "snd (calcWeek_rest dn fd wd wy fw yr) \<noteq> yr \<longleftrightarrow>
     wy
     \<and> 52 * 7 \<le> (if (fw \<and> wd \<noteq> 0) \<or> (\<not> fw \<and> 4 \<le> wd)
                  then int64 (dn - int64 (int64 (fd + 7) - wd))
                  else int64 (dn - int64 (fd - wd)))
     \<and> (let w = int64 (wd + calcDaysInYear yr) smod 7
        in (\<not> fw \<and> w < 4) \<or> (fw \<and> w = 0))"
  using int64_succ_neq [of yr] by (simp add: calcWeek_rest_def Let_def)

lemma calcWeek_rest_rollover:
  fixes dn fd wd yr :: int and wy fw :: bool
  assumes "\<bar>dn\<bar> \<le> 2 ^ 40" "\<bar>fd\<bar> \<le> 2 ^ 40" "0 \<le> wd" "wd \<le> 6" "\<bar>yr\<bar> \<le> 2 ^ 40"
  defines "days \<equiv> if (fw \<and> wd \<noteq> 0) \<or> (\<not> fw \<and> 4 \<le> wd)
                    then dn - (fd + 7 - wd) else dn - (fd - wd)"
  defines "roll \<equiv> wy \<and> 52 * 7 \<le> days
                    \<and> (let w = (wd + calcDaysInYear yr) mod 7 in (\<not> fw \<and> w < 4) \<or> (fw \<and> w = 0))"
  shows "roll \<Longrightarrow> calcWeek_rest dn fd wd wy fw yr = (1, yr + 1)"
    and "\<not> roll \<Longrightarrow> snd (calcWeek_rest dn fd wd wy fw yr) = yr"
proof -
  have a: "int64 (fd + 7) = fd + 7" "int64 (fd + 7 - wd) = fd + 7 - wd"
    "int64 (fd - wd) = fd - wd"
    "int64 (dn - (fd + 7 - wd)) = dn - (fd + 7 - wd)"
    "int64 (dn - (fd - wd)) = dn - (fd - wd)"
    "int64 (yr + 1) = yr + 1"
    using assms(1-5) by (auto intro!: int64_id)
  have b: "int64 (wd + calcDaysInYear yr) = wd + calcDaysInYear yr" "0 \<le> wd + calcDaysInYear yr"
    using assms(3,4) calcDaysInYear_cases [of yr] by (auto intro!: int64_id)
  have g: "snd (calcWeek_rest dn fd wd wy fw yr) \<noteq> yr \<longleftrightarrow> roll"
    unfolding calcWeek_rest_guard a b(1) smod_nonneg [OF b(2)] roll_def days_def ..
  show "roll \<Longrightarrow> calcWeek_rest dn fd wd wy fw yr = (1, yr + 1)"
    using g calcWeek_rest_year [of dn fd wd wy fw yr] a(6) by auto
  show "\<not> roll \<Longrightarrow> snd (calcWeek_rest dn fd wd wy fw yr) = yr"
    using g by simp
qed

lemma calcWeek_unfold_any:
  fixes t :: mysqlTime and wb :: weekBehaviour
  defines "Y \<equiv> uint (year t)" and "M \<equiv> uint (month t)" and "D \<equiv> uint (day t)"
  defines "wd \<equiv> calcWeekday (calcDaynr Y 1 1) (\<not> test wb weekBehaviourMondayFirst)"
  defines "wy \<equiv> test wb weekBehaviourWeekYear" and "fw \<equiv> test wb weekBehaviourWeekFirstWeekday"
  shows "calcWeek t wb =
    (if M = 1 \<and> D \<le> 7 - wd then
       if \<not> wy \<and> ((fw \<and> wd \<noteq> 0) \<or> (\<not> fw \<and> wd \<ge> 4)) then (0, Y)
       else calcWeek_rest (calcDaynr Y M D) (calcDaynr Y 1 1 - calcDaysInYear (Y - 1))
              ((wd + 53 * 7 - calcDaysInYear (Y - 1)) mod 7) True fw (Y - 1)
     else calcWeek_rest (calcDaynr Y M D) (calcDaynr Y 1 1) wd wy fw Y)"
    and "0 \<le> wd" and "wd \<le> 6"
    and "0 \<le> calcDaynr Y M D" and "calcDaynr Y M D \<le> 2 ^ 25"
    and "1 \<le> calcDaynr Y 1 1" and "calcDaynr Y 1 1 \<le> 2 ^ 25"
    and "0 \<le> Y" and "Y < 65536"
proof -
  show Y: "0 \<le> Y" "Y < 65536"
    using uint_lt2p [of "year t"] by (simp_all add: Y_def)
  have M: "0 \<le> M" "M \<le> 255"
    using uint_lt2p [of "month t"] by (simp_all add: M_def)
  have D: "0 \<le> D" "D \<le> 255"
    using uint_lt2p [of "day t"] by (simp_all add: D_def)
  have F: "calcDaynr Y 1 1 = dayNumber Y 1 1"
    using Y by (intro calcDaynr_any_field) simp_all
  have N: "calcDaynr Y M D = dayNumber Y M D"
    using Y M D by (intro calcDaynr_any_field) simp_all
  show "0 \<le> calcDaynr Y M D" and "calcDaynr Y M D \<le> 2 ^ 25"
    unfolding N using dayNumber_any_field [OF Y M D] by simp_all
  note j = dayNumber_jan1 [OF Y(1)]
  show Fb: "1 \<le> calcDaynr Y 1 1" "calcDaynr Y 1 1 \<le> 2 ^ 25"
    unfolding F using j Y(2) by simp_all
  show wd: "0 \<le> wd" "wd \<le> 6"
    unfolding wd_def F using calcWeekday_jan1 [OF Y] by simp_all
  have i7: "int64 (7 - wd) = 7 - wd"
    using wd by (intro int64_id) simp_all
  have m1: "month t = 1 \<longleftrightarrow> M = 1"
    unfolding M_def by (rule word8_eq_1_iff)
  have Y1: "int64 (Y - 1) = Y - 1"
    using Y by (intro int64_id) simp_all
  note dpy = calcDaysInYear_cases [of "Y - 1"]
  have F1: "int64 (calcDaynr Y 1 1 - calcDaysInYear (Y - 1)) = calcDaynr Y 1 1 - calcDaysInYear (Y - 1)"
    using Fb dpy by (intro int64_id) auto
  have w1: "int64 (wd + 53 * 7) = wd + 53 * 7"
    using wd by (intro int64_id) simp_all
  have w2: "int64 (wd + 53 * 7 - calcDaysInYear (Y - 1)) = wd + 53 * 7 - calcDaysInYear (Y - 1)"
    using wd dpy by (intro int64_id) auto
  have w3: "(wd + 53 * 7 - calcDaysInYear (Y - 1)) smod 7 = (wd + 53 * 7 - calcDaysInYear (Y - 1)) mod 7"
    using wd dpy by (intro smod_nonneg) auto
  have "calcWeek t wb =
    (if month t = 1 \<and> D \<le> int64 (7 - wd) then
       if \<not> wy \<and> ((fw \<and> wd \<noteq> 0) \<or> (\<not> fw \<and> wd \<ge> 4)) then (0, Y)
       else calcWeek_rest (calcDaynr Y M D) (int64 (calcDaynr Y 1 1 - calcDaysInYear (int64 (Y - 1))))
              (int64 (int64 (wd + 53 * 7) - calcDaysInYear (int64 (Y - 1))) smod 7) True fw (int64 (Y - 1))
     else calcWeek_rest (calcDaynr Y M D) (calcDaynr Y 1 1) wd wy fw Y)"
    unfolding calcWeek_def Let_def Y_def M_def D_def wd_def wy_def fw_def ..
  then show "calcWeek t wb =
    (if M = 1 \<and> D \<le> 7 - wd then
       if \<not> wy \<and> ((fw \<and> wd \<noteq> 0) \<or> (\<not> fw \<and> wd \<ge> 4)) then (0, Y)
       else calcWeek_rest (calcDaynr Y M D) (calcDaynr Y 1 1 - calcDaysInYear (Y - 1))
              ((wd + 53 * 7 - calcDaysInYear (Y - 1)) mod 7) True fw (Y - 1)
     else calcWeek_rest (calcDaynr Y M D) (calcDaynr Y 1 1) wd wy fw Y)"
    unfolding i7 m1 Y1 F1 w1 w2 w3 .
qed

text \<open>
  Claim C10. For every \<open>mysqlTime\<close> and every behaviour value, the owning year returned
  by \<open>calcWeek\<close> is the year \<open>Y\<close> of the date, the year before or the year after.
  The names below are the local variables of the source: \<open>early\<close> is the condition of the
  first conditional (month 1 and day at most 7 minus the weekday index of January 1st),
  \<open>week0\<close> the condition of its early return of week 0, \<open>days\<close> and \<open>rollover\<close> the
  value of \<^verbatim>\<open>days\<close> and the whole guard of the last conditional (\<^verbatim>\<open>week_year\<close>,
  \<^verbatim>\<open>days >= 52*7\<close> and the test on the weekday of the next January 1st) on the path that
  skips the first conditional, \<open>days_prev\<close> and \<open>rollover_prev\<close> the same on the path
  through it, where \<^verbatim>\<open>week_year\<close> has been set.
  \<^item> The year is decremented exactly on the early-January path that does not return week
    0, and the result is \<open>Y - 1\<close> exactly when, on that path, the rollover guard fails.
  \<^item> The year is incremented exactly when the rollover guard holds, and the week returned
    is then 1: the result is \<open>Y + 1\<close> exactly when the first conditional is skipped and
    \<open>rollover\<close> holds; after a decrement, \<open>rollover_prev\<close> gives week 1 of \<open>Y\<close>.
  \<^item> For arbitrary values of its local variables, the last conditional (\<open>calcWeek_rest\<close>)
    changes the year exactly when \<^verbatim>\<open>week_year\<close> is set, \<^verbatim>\<open>days >= 52*7\<close> and the weekday
    test holds, and it then returns week 1 and the next year.
\<close>

theorem calcWeek_owning_year:
  fixes t :: mysqlTime and wb :: weekBehaviour
    and dn fd wd yr :: int and wy fw :: bool
  defines "Y \<equiv> Year t" and "M \<equiv> Month t" and "D \<equiv> Day t"
  defines "daynr \<equiv> calcDaynr Y M D"
    and "first_daynr \<equiv> calcDaynr Y 1 1"
    and "week_year \<equiv> test wb weekBehaviourWeekYear"
    and "first_weekday \<equiv> test wb weekBehaviourWeekFirstWeekday"
  defines "weekday \<equiv> calcWeekday first_daynr (\<not> test wb weekBehaviourMondayFirst)"
  defines "early \<equiv> M = 1 \<and> D \<le> 7 - weekday"
    and "week0 \<equiv> \<not> week_year
           \<and> ((first_weekday \<and> weekday \<noteq> 0) \<or> (\<not> first_weekday \<and> 4 \<le> weekday))"
    and "days \<equiv> if (first_weekday \<and> weekday \<noteq> 0) \<or> (\<not> first_weekday \<and> 4 \<le> weekday)
                  then daynr - (first_daynr + 7 - weekday)
                  else daynr - (first_daynr - weekday)"
    and "prev_days \<equiv> calcDaysInYear (Y - 1)"
  defines "prev_weekday \<equiv> (weekday + 53 * 7 - prev_days) mod 7"
  defines "days_prev \<equiv>
             if (first_weekday \<and> prev_weekday \<noteq> 0) \<or> (\<not> first_weekday \<and> 4 \<le> prev_weekday)
             then daynr - (first_daynr - prev_days + 7 - prev_weekday)
             else daynr - (first_daynr - prev_days - prev_weekday)"
  defines "rollover \<equiv> week_year \<and> 52 * 7 \<le> days
             \<and> (let w = (weekday + calcDaysInYear Y) mod 7
                in (\<not> first_weekday \<and> w < 4) \<or> (first_weekday \<and> w = 0))"
    and "rollover_prev \<equiv> 52 * 7 \<le> days_prev
             \<and> (let w = (prev_weekday + prev_days) mod 7
                in (\<not> first_weekday \<and> w < 4) \<or> (first_weekday \<and> w = 0))"
  shows "snd (calcWeek t wb) \<in> {Y - 1, Y, Y + 1}
    \<and> (snd (calcWeek t wb) = Y - 1 \<longleftrightarrow> early \<and> \<not> week0 \<and> \<not> rollover_prev)
    \<and> (snd (calcWeek t wb) = Y + 1 \<longleftrightarrow> \<not> early \<and> rollover)
    \<and> (snd (calcWeek t wb) = Y + 1 \<longrightarrow> fst (calcWeek t wb) = 1)
    \<and> (early \<and> week0 \<longrightarrow> calcWeek t wb = (0, Y))
    \<and> (early \<and> \<not> week0 \<and> rollover_prev \<longrightarrow> calcWeek t wb = (1, Y))
    \<and> (early \<and> snd (calcWeek t wb) = Y \<longrightarrow> fst (calcWeek t wb) = 0 \<or> fst (calcWeek t wb) = 1)
    \<and> (snd (calcWeek_rest dn fd wd wy fw yr) \<noteq> yr \<longrightarrow>
          calcWeek_rest dn fd wd wy fw yr = (1, int64 (yr + 1)))
    \<and> (snd (calcWeek_rest dn fd wd wy fw yr) \<noteq> yr \<longleftrightarrow>
          wy
          \<and> 52 * 7 \<le> (if (fw \<and> wd \<noteq> 0) \<or> (\<not> fw \<and> 4 \<le> wd)
                       then int64 (dn - int64 (int64 (fd + 7) - wd))
                       else int64 (dn - int64 (fd - wd)))
          \<and> (let w = int64 (wd + calcDaysInYear yr) smod 7
             in (\<not> fw \<and> w < 4) \<or> (fw \<and> w = 0)))"
proof -
  note u = calcWeek_unfold_any(1-3) [of t wb,
      folded Year_def Month_def Day_def, folded Y_def M_def D_def,
      folded first_daynr_def daynr_def week_year_def first_weekday_def,
      folded weekday_def, folded early_def prev_days_def]
  note v = calcWeek_unfold_any(4-9) [of t,
      folded Year_def Month_def Day_def, folded Y_def M_def D_def,
      folded first_daynr_def daynr_def]
  have c: "calcWeek t wb =
    (if early then
       if week0 then (0, Y)
       else calcWeek_rest daynr (first_daynr - prev_days) prev_weekday True first_weekday (Y - 1)
     else calcWeek_rest daynr first_daynr weekday week_year first_weekday Y)"
    using u(1) unfolding week0_def prev_weekday_def by simp
  have b: "\<bar>daynr\<bar> \<le> 2 ^ 40" "\<bar>first_daynr\<bar> \<le> 2 ^ 40" "\<bar>Y\<bar> \<le> 2 ^ 40"
    "\<bar>first_daynr - prev_days\<bar> \<le> 2 ^ 40" "\<bar>Y - 1\<bar> \<le> 2 ^ 40"
    using v calcDaysInYear_cases [of "Y - 1"] by (auto simp: prev_days_def)
  have pw: "0 \<le> prev_weekday" "prev_weekday \<le> 6"
    using pos_mod_bound [of 7 "weekday + 53 * 7 - prev_days"] by (simp_all add: prev_weekday_def)
  have dp: "days_prev =
     (if (first_weekday \<and> prev_weekday \<noteq> 0) \<or> (\<not> first_weekday \<and> 4 \<le> prev_weekday)
      then daynr - (first_daynr - prev_days + 7 - prev_weekday)
      else daynr - (first_daynr - prev_days - prev_weekday))"
    by (simp add: days_prev_def)
  have late: "rollover \<Longrightarrow> calcWeek_rest daynr first_daynr weekday week_year first_weekday Y = (1, Y + 1)"
    "\<not> rollover \<Longrightarrow> snd (calcWeek_rest daynr first_daynr weekday week_year first_weekday Y) = Y"
    using calcWeek_rest_rollover [OF b(1,2) u(2,3) b(3), of week_year first_weekday]
    unfolding rollover_def days_def by simp_all
  have prev: "rollover_prev \<Longrightarrow>
        calcWeek_rest daynr (first_daynr - prev_days) prev_weekday True first_weekday (Y - 1) = (1, Y)"
    "\<not> rollover_prev \<Longrightarrow>
        snd (calcWeek_rest daynr (first_daynr - prev_days) prev_weekday True first_weekday (Y - 1)) = Y - 1"
    using calcWeek_rest_rollover [OF b(1,4) pw b(5), of True first_weekday]
    unfolding rollover_prev_def dp prev_days_def by simp_all
  have main: "snd (calcWeek t wb) \<in> {Y - 1, Y, Y + 1}
    \<and> (snd (calcWeek t wb) = Y - 1 \<longleftrightarrow> early \<and> \<not> week0 \<and> \<not> rollover_prev)
    \<and> (snd (calcWeek t wb) = Y + 1 \<longleftrightarrow> \<not> early \<and> rollover)
    \<and> (snd (calcWeek t wb) = Y + 1 \<longrightarrow> fst (calcWeek t wb) = 1)
    \<and> (early \<and> week0 \<longrightarrow> calcWeek t wb = (0, Y))
    \<and> (early \<and> \<not> week0 \<and> rollover_prev \<longrightarrow> calcWeek t wb = (1, Y))
    \<and> (early \<and> snd (calcWeek t wb) = Y \<longrightarrow> fst (calcWeek t wb) = 0 \<or> fst (calcWeek t wb) = 1)"
  proof (cases early)
    case e: True
    show ?thesis
    proof (cases week0)
      case True
      with e c have "calcWeek t wb = (0, Y)" by simp
      with e True show ?thesis by simp
    next
      case w: False
      with e c have r: "calcWeek t wb =
        calcWeek_rest daynr (first_daynr - prev_days) prev_weekday True first_weekday (Y - 1)" by simp
      show ?thesis
      proof (cases rollover_prev)
        case True
        from prev(1) [OF True] r have "calcWeek t wb = (1, Y)" by simp
        with e w True show ?thesis by simp
      next
        case False
        from prev(2) [OF False] r have "snd (calcWeek t wb) = Y - 1" by simp
        with e w False show ?thesis by simp
      qed
    qed
  next
    case e: False
    with c have r: "calcWeek t wb = calcWeek_rest daynr first_daynr weekday week_year first_weekday Y"
      by simp
    show ?thesis
    proof (cases rollover)
      case True
      from late(1) [OF True] r have "calcWeek t wb = (1, Y + 1)" by simp
      with e True show ?thesis by simp
    next
      case False
      from late(2) [OF False] r have "snd (calcWeek t wb) = Y" by simp
      with e False show ?thesis by simp
    qed
  qed
  have g1: "snd (calcWeek_rest dn fd wd wy fw yr) \<noteq> yr \<longrightarrow>
          calcWeek_rest dn fd wd wy fw yr = (1, int64 (yr + 1))"
    using calcWeek_rest_year [of dn fd wd wy fw yr] by blast
  note g2 = calcWeek_rest_guard [of dn fd wd wy fw yr]
  from main g1 g2 show ?thesis by (elim conjE, intro conjI) assumption+
qed

theorem calcWeek_owning_year_witness:
  "snd (calcWeek (newMysqlTime 2000 1 1 0 0 0 0) 2) = Year (newMysqlTime 2000 1 1 0 0 0 0) - 1
   \<and> Month (newMysqlTime 2000 1 1 0 0 0 0) = 1
   \<and> snd (calcWeek (newMysqlTime 2000 6 236 0 0 0 0) 2) = Year (newMysqlTime 2000 6 236 0 0 0 0) + 1
   \<and> fst (calcWeek (newMysqlTime 2000 6 236 0 0 0 0) 2) = 1
   \<and> snd (calcWeek (newMysqlTime 2000 3 15 0 0 0 0) 2) \<noteq> Year (newMysqlTime 2000 3 15 0 0 0 0) + 1
   \<and> snd (calcWeek_rest 370 1 0 True False 2000) \<noteq> 2000
   \<and> calcWeek_rest 370 1 0 True False 2000 = (1, int64 (2000 + 1))"
proof -
  have v: "snd (calcWeek (newMysqlTime 2000 1 1 0 0 0 0) 2) = Year (newMysqlTime 2000 1 1 0 0 0 0) - 1"
    "Month (newMysqlTime 2000 1 1 0 0 0 0) = 1"
    "snd (calcWeek (newMysqlTime 2000 6 236 0 0 0 0) 2) = Year (newMysqlTime 2000 6 236 0 0 0 0) + 1"
    "snd (calcWeek (newMysqlTime 2000 3 15 0 0 0 0) 2) \<noteq> Year (newMysqlTime 2000 3 15 0 0 0 0) + 1"
    "snd (calcWeek_rest 370 1 0 True False 2000) \<noteq> 2000"
    by code_simp+
  note T = calcWeek_owning_year [where t = "newMysqlTime 2000 6 236 0 0 0 0" and wb = 2
      and dn = 370 and fd = 1 and wd = 0 and wy = True and fw = False and yr = 2000]
  note week1 = T [THEN conjunct2, THEN conjunct2, THEN conjunct2, THEN conjunct1]
  note rest = T [THEN conjunct2, THEN conjunct2, THEN conjunct2, THEN conjunct2, THEN conjunct2,
      THEN conjunct2, THEN conjunct2, THEN conjunct1]
  from v week1 rest show ?thesis by blast
qed

subsection \<open>The timestamp built by \<open>Date\<close>\<close>



lemma localSec_Date:
  "localSec (Date y mo d h mi s ns l) = unixSec (Date y mo d h mi s ns 0)"
  by (simp add: localSec_def Date_def norm_def Let_def)

lemma nsec_Date: "nsec (Date y mo d h mi s ns l) = ns mod 1000000000"
  by (simp add: Date_def norm_def Let_def)

lemma loc_Date: "loc (Date y mo d h mi s ns l) = l"
  by (simp add: Date_def norm_def Let_def split: prod.splits)

lemma unixSec_Date: "unixSec (Date y mo d h mi s ns l) = unixSec (Date y mo d h mi s ns 0) - l"
  by (simp add: Date_def norm_def Let_def)


lemma Time_Date_Local: "Time_Date (Date y mo d h mi s ns l) = Time_Date (Date y mo d h mi s ns 0)"
  by (simp add: Time_Date_def localSec_Date)

lemma Time_Clock_Local: "Time_Clock (Date y mo d h mi s ns l) = Time_Clock (Date y mo d h mi s ns 0)"
  by (simp add: Time_Clock_def localSec_Date)

lemma Time_Nanosecond_Local:
  "Time_Nanosecond (Date y mo d h mi s ns l) = Time_Nanosecond (Date y mo d h mi s ns 0)"
  by (simp add: Time_Nanosecond_def nsec_Date)

lemma GoTime_fst:
  "fst (GoTime Local t) =
     Date (Year t) (Month t) (Day t) (Hour t) (Minute t) (Second t) (int64 (Microsecond t * 1000)) Local"
  by (simp add: GoTime_def Let_def split: prod.splits)

lemma GoTime_snd:
  "snd (GoTime Local t) =
     (if Time_Date (fst (GoTime Local t)) \<noteq> (Year t, Month t, Day t)
         \<or> Time_Clock (fst (GoTime Local t)) \<noteq> (Hour t, Minute t, Second t)
         \<or> Time_Nanosecond (fst (GoTime Local t)) sdiv 1000 \<noteq> Microsecond t
      then Some ErrInvalidTimeFormat else None)"
  unfolding GoTime_fst by (auto simp: GoTime_def Let_def split: prod.splits)

lemma GoTime_fields_Local:
  "Time_Date (fst (GoTime l t)) = Time_Date (fst (GoTime 0 t))"
  "Time_Clock (fst (GoTime l t)) = Time_Clock (fst (GoTime 0 t))"
  "Time_Nanosecond (fst (GoTime l t)) = Time_Nanosecond (fst (GoTime 0 t))"
  unfolding GoTime_fst
  by (rule Time_Date_Local Time_Clock_Local Time_Nanosecond_Local)+

lemma GoTime_snd_Local: "snd (GoTime l t) = snd (GoTime 0 t)"
  by (subst (1 2) GoTime_snd) (simp only: GoTime_fields_Local [of l t])



lemma GoTime_2024_02_29_zones:
  "unixSec (fst (GoTime 0 (newMysqlTime 2024 2 29 12 0 0 0))) = 1709208000"
  "unixSec (fst (GoTime 3600 (newMysqlTime 2024 2 29 12 0 0 0))) = 1709204400"
  by code_simp+







subsection \<open>Conversion to an absolute time\<close>



text \<open>
  Claim C5, as stated, fails: \<open>GoTime\<close> has no zone parameter and reads the local zone
  of the process. For 2024-02-29 12:00:00 it returns the instant 1709208000 when that zone
  is UTC and the instant 1709204400 when it is one hour east of UTC: two invocations under
  different ambient zones do not produce identical results.
\<close>

theorem GoTime_depends_on_Local:
  "unixSec (fst (GoTime 0 (newMysqlTime 2024 2 29 12 0 0 0))) = 1709208000
   \<and> unixSec (fst (GoTime 3600 (newMysqlTime 2024 2 29 12 0 0 0))) = 1709204400
   \<and> GoTime 0 (newMysqlTime 2024 2 29 12 0 0 0) \<noteq> GoTime 3600 (newMysqlTime 2024 2 29 12 0 0 0)"
proof -
  note z = GoTime_2024_02_29_zones
  have "GoTime 0 (newMysqlTime 2024 2 29 12 0 0 0) \<noteq> GoTime 3600 (newMysqlTime 2024 2 29 12 0 0 0)"
  proof
    assume "GoTime 0 (newMysqlTime 2024 2 29 12 0 0 0) = GoTime 3600 (newMysqlTime 2024 2 29 12 0 0 0)"
    then have "unixSec (fst (GoTime 0 (newMysqlTime 2024 2 29 12 0 0 0)))
        = unixSec (fst (GoTime 3600 (newMysqlTime 2024 2 29 12 0 0 0)))" by simp
    with z show False by simp
  qed
  with z show ?thesis by simp
qed

text \<open>
  Claim C5, amended. \<open>GoTime\<close> interprets the calendar fields in the local zone of the
  process, an ambient input. Under two such zones (of fixed offsets) the conversion
  fails or succeeds alike and the fields read back are the same, but the timestamps
  differ: each carries its own zone, and the two instants differ by the difference of
  the offsets (each instant plus its offset is the same local time).
\<close>

theorem GoTime_Local_zone:
  "loc (fst (GoTime Local t)) = Local
   \<and> unixSec (fst (GoTime Local t)) + Local = unixSec (fst (GoTime Local' t)) + Local'
   \<and> nsec (fst (GoTime Local t)) = nsec (fst (GoTime Local' t))
   \<and> Time_Date (fst (GoTime Local t)) = Time_Date (fst (GoTime Local' t))
   \<and> Time_Clock (fst (GoTime Local t)) = Time_Clock (fst (GoTime Local' t))
   \<and> Time_Nanosecond (fst (GoTime Local t)) = Time_Nanosecond (fst (GoTime Local' t))
   \<and> snd (GoTime Local t) = snd (GoTime Local' t)"
proof -
  have 1: "loc (fst (GoTime Local t)) = Local"
    unfolding GoTime_fst by (rule loc_Date)
  have 2: "unixSec (fst (GoTime Local t)) + Local = unixSec (fst (GoTime Local' t)) + Local'"
    unfolding GoTime_fst
    by (subst unixSec_Date, subst (2) unixSec_Date) simp
  have 3: "nsec (fst (GoTime Local t)) = nsec (fst (GoTime Local' t))"
    unfolding GoTime_fst nsec_Date ..
  have 4: "Time_Date (fst (GoTime Local t)) = Time_Date (fst (GoTime Local' t))"
    "Time_Clock (fst (GoTime Local t)) = Time_Clock (fst (GoTime Local' t))"
    "Time_Nanosecond (fst (GoTime Local t)) = Time_Nanosecond (fst (GoTime Local' t))"
    using GoTime_fields_Local [of Local t] GoTime_fields_Local [of Local' t] by simp_all
  have 5: "snd (GoTime Local t) = snd (GoTime Local' t)"
    using GoTime_snd_Local [of Local t] GoTime_snd_Local [of Local' t] by simp
  from 1 2 3 4 5 show ?thesis by (intro conjI) assumption+
qed

theorem GoTime_Local_zone_witness:
  "unixSec (fst (GoTime 0 (newMysqlTime 2024 2 29 12 0 0 0))) + 0
     = unixSec (fst (GoTime 3600 (newMysqlTime 2024 2 29 12 0 0 0))) + 3600
   \<and> snd (GoTime 0 (newMysqlTime 2024 2 29 12 0 0 0)) = snd (GoTime 3600 (newMysqlTime 2024 2 29 12 0 0 0))
   \<and> loc (fst (GoTime 3600 (newMysqlTime 2024 2 29 12 0 0 0))) = 3600"
  using GoTime_Local_zone [of 0 "newMysqlTime 2024 2 29 12 0 0 0" 3600]
    GoTime_Local_zone [of 3600 "newMysqlTime 2024 2 29 12 0 0 0" 0]
  by blast

text \<open>
  Claim C9. For every \<open>mysqlTime\<close> (and local zone) on which \<open>GoTime\<close> fails,
  \<open>Weekday\<close> returns 0, \<open>YearDay\<close> returns 0 and \<open>ISOWeek\<close> returns \<open>(0, 0)\<close>; their
  results have no error component, so that the error is dropped.
\<close>

theorem derived_accessors_default:
  assumes "snd (GoTime Local t) \<noteq> None"
  shows "Weekday Local t = 0 \<and> YearDay Local t = 0 \<and> ISOWeek Local t = (0, 0)"
proof (cases "GoTime Local t")
  case (Pair t1 err)
  with assms obtain e where "err = Some e" by auto
  with Pair show ?thesis
    by (simp add: Weekday_def YearDay_def ISOWeek_def)
qed

theorem derived_accessors_default_witness:
  "snd (GoTime 0 (newMysqlTime 2023 2 29 0 0 0 0)) \<noteq> None
   \<and> Weekday 0 (newMysqlTime 2023 2 29 0 0 0 0) = 0
   \<and> YearDay 0 (newMysqlTime 2023 2 29 0 0 0 0) = 0
   \<and> ISOWeek 0 (newMysqlTime 2023 2 29 0 0 0 0) = (0, 0)"
proof -
  have h: "snd (GoTime 0 (newMysqlTime 2023 2 29 0 0 0 0)) \<noteq> None"
    by code_simp
  from derived_accessors_default [OF h] h show ?thesis by simp
qed

end
